theory Spec2Isabelle
  imports Main "HOL-Library.Multiset" "HOL-Library.List_Lexorder" "HOL-Library.Char_ord"
begin

section \<open>Data model (models.py, schemas.py)\<close>

text \<open>
  The two tables of \<^verbatim>\<open>models.py\<close>. A row carries every column of the mapped class.
  Primary keys are drawn from a sequence; timestamps are abstract instants. The
  columns \<^verbatim>\<open>name\<close> and \<^verbatim>\<open>html_url\<close> are declared \<^verbatim>\<open>nullable=False\<close>, but the ORM object
  can hold \<^verbatim>\<open>None\<close> in them until the flush, so the attribute type is optional and the
  NOT NULL constraint is a check of the flush (\<open>repository_columns_ok\<close> below).
  A \<open>string\<close> stands for a text that can be sent to the database; a text with a NUL
  character, which PostgreSQL does not take, is outside the model.
\<close>

type_synonym timestamp = nat

record user_row =
  u_id :: nat
  u_username :: string
  u_created_at :: timestamp
  u_updated_at :: timestamp
  u_last_synced_at :: "timestamp option"

record repository_row =
  r_id :: nat
  r_github_id :: int
  r_name :: "string option"
  r_html_url :: "string option"
  r_description :: "string option"
  r_language :: "string option"
  r_user_id :: nat
  r_created_at :: timestamp
  r_updated_at :: timestamp

record database =
  users :: "user_row list"
  repositories :: "repository_row list"

text \<open>
  A \<^verbatim>\<open>Session\<close> of \<^verbatim>\<open>SessionLocal\<close> together with the database server it talks to:
  \<open>committed\<close> is the database as every new transaction sees it, \<open>txn\<close> is the view of
  the transaction this session has open (\<open>None\<close>: no transaction is open), and the two
  sequences hand out primary keys. A sequence is not rolled back with a transaction:
  a value it has handed out is never handed out again.
\<close>

record session =
  committed :: database
  txn :: "database option"
  users_id_seq :: nat
  repositories_id_seq :: nat

text \<open>
  One element of \<^verbatim>\<open>repos_data\<close>: the five keys \<^verbatim>\<open>upsert_user_and_repos\<close> reads with
  \<^verbatim>\<open>repo.get\<close>. A key that is missing and a key that holds \<^verbatim>\<open>null\<close> both read as \<open>None\<close>.
\<close>

record repo_dict =
  d_id :: "int option"
  d_name :: "string option"
  d_html_url :: "string option"
  d_description :: "string option"
  d_language :: "string option"

text \<open>The response models of \<^verbatim>\<open>schemas.py\<close>.\<close>

record repository_base =
  rb_name :: string
  rb_html_url :: string
  rb_description :: "string option"
  rb_language :: "string option"

record user_sync_response =
  sr_username :: string
  sr_status :: string
  sr_is_new :: bool
  sr_repositories :: "repository_base list"

text \<open>
  The exceptions that leave the modelled functions: \<^verbatim>\<open>fastapi.HTTPException\<close> with
  its status code and detail, any error of the store (\<^verbatim>\<open>sqlalchemy.exc.SQLAlchemyError\<close>:
  a violated constraint, a value too long for its column or out of its range), pydantic's
  \<^verbatim>\<open>ValidationError\<close>, a transport failure of the HTTP client, and the error of
  \<^verbatim>\<open>response.json()\<close> on a body that is not JSON.
\<close>

datatype exn =
  HTTPException nat string
  | SQLAlchemyError
  | ValidationError
  | TransportError
  | JSONDecodeError

text \<open>
  What the code takes from its surroundings during one call: the collation the
  database orders \<^verbatim>\<open>name\<close> by, pydantic's \<^verbatim>\<open>HttpUrl\<close> validation (the accepted URL, or
  \<open>None\<close> when the text is refused), and the readings of \<^verbatim>\<open>datetime.utcnow\<close>: at the
  flush of line 107, at line 149, and at the flush of the commit.
\<close>

record env =
  collate_le :: "string \<Rightarrow> string \<Rightarrow> bool"
  parse_http_url :: "string \<Rightarrow> string option"
  utcnow_flush :: timestamp
  utcnow_sync :: timestamp
  utcnow_commit :: timestamp

section \<open>The session: transactions, constraints, flush and commit\<close>

definition autobegin :: "session \<Rightarrow> session" where
  "autobegin db = (case txn db of None \<Rightarrow> db\<lparr>txn := Some (committed db)\<rparr> | Some v \<Rightarrow> db)"

definition view :: "session \<Rightarrow> database" where
  "view db = (case txn db of None \<Rightarrow> committed db | Some v \<Rightarrow> v)"

definition close :: "session \<Rightarrow> session" where
  "close db = db\<lparr>txn := None\<rparr>"

text \<open>
  A flush that fails rolls the transaction back before the exception propagates: what
  the transaction had written is gone.
\<close>

definition rollback :: "session \<Rightarrow> session" where
  "rollback db = db\<lparr>txn := None\<rparr>"

definition varchar_ok :: "nat \<Rightarrow> string option \<Rightarrow> bool" where
  "varchar_ok n v = (case v of None \<Rightarrow> True | Some s \<Rightarrow> length s \<le> n)"

text \<open>
  The column constraints of \<^verbatim>\<open>Repository\<close> that an INSERT or UPDATE of the four
  overwritten attributes can violate: \<^verbatim>\<open>name = String(255), nullable=False\<close>,
  \<^verbatim>\<open>html_url = String(512), nullable=False\<close>, \<^verbatim>\<open>language = String(100)\<close>.
\<close>

type_synonym attrs = "string option \<times> string option \<times> string option \<times> string option"

definition repository_columns_ok :: "attrs \<Rightarrow> bool" where
  "repository_columns_ok a =
     (case a of (name, html_url, description, language) \<Rightarrow>
        name \<noteq> None \<and> html_url \<noteq> None \<and>
        varchar_ok 255 name \<and> varchar_ok 512 html_url \<and> varchar_ok 100 language)"

definition attrs_of_row :: "repository_row \<Rightarrow> attrs" where
  "attrs_of_row r = (r_name r, r_html_url r, r_description r, r_language r)"

definition attrs_of_dict :: "repo_dict \<Rightarrow> attrs" where
  "attrs_of_dict repo = (d_name repo, d_html_url repo, d_description repo, d_language repo)"

definition set_attrs :: "attrs \<Rightarrow> repository_row \<Rightarrow> repository_row" where
  "set_attrs a r =
     (case a of (name, html_url, description, language) \<Rightarrow>
        r\<lparr>r_name := name, r_html_url := html_url,
          r_description := description, r_language := language\<rparr>)"

text \<open>
  \<^verbatim>\<open>db.query(User).filter(User.username == username).first()\<close> and the lookup of a
  repository by \<^verbatim>\<open>(user_id, github_id)\<close>. Both read the transaction's view: the session
  is made with \<^verbatim>\<open>autoflush=False\<close>, so a query never sees an object that is only pending.
\<close>

definition find_user :: "database \<Rightarrow> string \<Rightarrow> user_row option" where
  "find_user d username = find (\<lambda>u. u_username u = username) (users d)"

definition find_repository :: "database \<Rightarrow> nat \<Rightarrow> int \<Rightarrow> repository_row option" where
  "find_repository d uid github_id =
     find (\<lambda>r. r_user_id r = uid \<and> r_github_id r = github_id) (repositories d)"

text \<open>
  \<^verbatim>\<open>db.add(user); db.flush()\<close>: the INSERT into \<^verbatim>\<open>users\<close>, inside the open transaction.
  A username longer than \<^verbatim>\<open>String(39)\<close> does not fit the column: the statement is
  refused before a primary key is drawn. A username or a primary key that is taken
  breaks a unique index: the statement is refused when the row is stored, and the value
  drawn from the sequence is spent.
\<close>

definition insert_user :: "timestamp \<Rightarrow> session \<Rightarrow> string \<Rightarrow> session \<times> (exn + user_row)" where
  "insert_user t db username =
     (if 39 < length username
      then (rollback db, Inl SQLAlchemyError)
      else if username \<in> set (map u_username (users (view db)))
         \<or> users_id_seq db \<in> set (map u_id (users (view db)))
      then ((rollback db)\<lparr>users_id_seq := Suc (users_id_seq db)\<rparr>, Inl SQLAlchemyError)
      else
        (let user = \<lparr>u_id = users_id_seq db, u_username = username, u_created_at = t,
                      u_updated_at = t, u_last_synced_at = None\<rparr>
         in (db\<lparr>txn := Some ((view db)\<lparr>users := users (view db) @ [user]\<rparr>),
                users_id_seq := Suc (users_id_seq db)\<rparr>,
             Inr user)))"

text \<open>
  The objects of the session during the loop of lines 112-139: the external ids
  collected so far, the persistent \<^verbatim>\<open>Repository\<close> objects by primary key (the identity
  map: a row that is queried again gives the same object, with the attributes already
  assigned to it), and the new objects in the order of \<^verbatim>\<open>db.add\<close>. One turn of the loop
  is \<open>upsert_repo\<close>: a record without \<^verbatim>\<open>id\<close> is passed over; otherwise the id is
  collected, the row is looked up, a new object is made when there is none, and the
  four attributes are assigned from the record (\<^verbatim>\<open>repo.get\<close>: \<open>None\<close> for a missing key).
\<close>

record repository_new =
  n_user_id :: nat
  n_github_id :: int
  n_attrs :: attrs

record sync_loop =
  github_repo_ids :: "int list"
  identity_map :: "nat \<Rightarrow> repository_row option"
  pending :: "repository_new list"

definition loop_init :: sync_loop where
  "loop_init = \<lparr>github_repo_ids = [], identity_map = (\<lambda>_. None), pending = []\<rparr>"

definition upsert_repo :: "database \<Rightarrow> nat \<Rightarrow> sync_loop \<Rightarrow> repo_dict \<Rightarrow> sync_loop" where
  "upsert_repo v uid st repo =
     (case d_id repo of
        None \<Rightarrow> st
      | Some github_id \<Rightarrow>
          (let ids = github_repo_ids st @ [github_id] in
           case find_repository v uid github_id of
             None \<Rightarrow>
               st\<lparr>github_repo_ids := ids,
                  pending := pending st @
                    [\<lparr>n_user_id = uid, n_github_id = github_id,
                      n_attrs = attrs_of_dict repo\<rparr>]\<rparr>
           | Some row \<Rightarrow>
               (let db_repo = (case identity_map st (r_id row) of
                                 None \<Rightarrow> row | Some obj \<Rightarrow> obj)
                in st\<lparr>github_repo_ids := ids,
                      identity_map := (identity_map st)
                        (r_id row \<mapsto> set_attrs (attrs_of_dict repo) db_repo)\<rparr>)))"

text \<open>
  Lines 142-147: the bulk DELETE, sent to the database at once
  (\<^verbatim>\<open>synchronize_session=False\<close>, and no flush before it).
\<close>

definition bulk_delete :: "nat \<Rightarrow> int list \<Rightarrow> database \<Rightarrow> database" where
  "bulk_delete uid ids d =
     d\<lparr>repositories :=
         filter (\<lambda>r. \<not> (r_user_id r = uid \<and> r_github_id r \<notin> set ids)) (repositories d)\<rparr>"

text \<open>
  The flush of \<^verbatim>\<open>db.commit()\<close>. First the UPDATE of the user row
  (\<^verbatim>\<open>last_synced_at\<close>, and \<^verbatim>\<open>updated_at\<close> by its \<^verbatim>\<open>onupdate\<close>); it is sent only when
  the attribute changed.
\<close>

definition flush_user :: "timestamp \<Rightarrow> timestamp \<Rightarrow> nat \<Rightarrow> database \<Rightarrow> database" where
  "flush_user t_sync t uid d =
     d\<lparr>users :=
         map (\<lambda>u. if u_id u = uid \<and> u_last_synced_at u \<noteq> Some t_sync
                   then u\<lparr>u_last_synced_at := Some t_sync, u_updated_at := t\<rparr>
                   else u)
           (users d)\<rparr>"

text \<open>
  Then one UPDATE for every persistent \<^verbatim>\<open>Repository\<close> object whose attributes differ from
  its row: it sets the four attributes and \<^verbatim>\<open>updated_at\<close> where \<^verbatim>\<open>id\<close> is the object's
  primary key. An object that was assigned the values its row already has sends nothing.
\<close>

definition update_row :: "timestamp \<Rightarrow> (nat \<Rightarrow> repository_row option) \<Rightarrow> repository_row \<Rightarrow> repository_row" where
  "update_row t m row =
     (case m (r_id row) of
        None \<Rightarrow> row
      | Some obj \<Rightarrow>
          if attrs_of_row obj \<noteq> attrs_of_row row
          then (set_attrs (attrs_of_row obj) row)\<lparr>r_updated_at := t\<rparr>
          else row)"

definition update_ok :: "(nat \<Rightarrow> repository_row option) \<Rightarrow> repository_row \<Rightarrow> bool" where
  "update_ok m row =
     (case m (r_id row) of
        None \<Rightarrow> True
      | Some obj \<Rightarrow>
          attrs_of_row obj = attrs_of_row row \<or> repository_columns_ok (attrs_of_row obj))"

definition flush_updates :: "timestamp \<Rightarrow> (nat \<Rightarrow> repository_row option) \<Rightarrow> database \<Rightarrow> exn + database" where
  "flush_updates t m d =
     (if list_all (update_ok m) (repositories d)
      then Inr (d\<lparr>repositories := map (update_row t m) (repositories d)\<rparr>)
      else Inl SQLAlchemyError)"

text \<open>
  Last the INSERTs of the new objects, in the order they were added. The values of an
  INSERT must fit the column types: \<^verbatim>\<open>github_id\<close> is an \<^verbatim>\<open>Integer\<close> (32 bits, signed), and
  the three \<^verbatim>\<open>String(n)\<close> columns take at most \<^verbatim>\<open>n\<close> characters. A value that does not fit
  is refused before a primary key is drawn. Then the row is stored with the next value
  of the sequence, unless \<^verbatim>\<open>name\<close> or \<^verbatim>\<open>html_url\<close> is NULL, the table already holds a row
  with the same \<^verbatim>\<open>(user_id, github_id)\<close> (\<^verbatim>\<open>uq_user_repo\<close>), or the primary key is taken:
  then the INSERT is refused and the value drawn is spent. The foreign key cannot fail,
  the user row being in the transaction's view. The result is the value the sequence
  has reached and the table, or the error.
\<close>

definition int4_ok :: "int \<Rightarrow> bool" where
  "int4_ok i \<longleftrightarrow> - (2 ^ 31) \<le> i \<and> i < 2 ^ 31"

definition values_fit :: "repository_new \<Rightarrow> bool" where
  "values_fit n =
     (case n_attrs n of (name, html_url, description, language) \<Rightarrow>
        int4_ok (n_github_id n) \<and>
        varchar_ok 255 name \<and> varchar_ok 512 html_url \<and> varchar_ok 100 language)"

definition new_row :: "timestamp \<Rightarrow> nat \<Rightarrow> repository_new \<Rightarrow> repository_row" where
  "new_row t pk n =
     set_attrs (n_attrs n)
       \<lparr>r_id = pk, r_github_id = n_github_id n, r_name = None, r_html_url = None,
        r_description = None, r_language = None, r_user_id = n_user_id n,
        r_created_at = t, r_updated_at = t\<rparr>"

definition repo_key :: "repository_row \<Rightarrow> nat \<times> int" where
  "repo_key r = (r_user_id r, r_github_id r)"

fun flush_inserts :: "timestamp \<Rightarrow> nat \<Rightarrow> repository_row list \<Rightarrow> repository_new list
    \<Rightarrow> nat \<times> (exn + repository_row list)" where
  "flush_inserts t seq rows [] = (seq, Inr rows)"
| "flush_inserts t seq rows (n # ns) =
     (if \<not> values_fit n
      then (seq, Inl SQLAlchemyError)
      else if repository_columns_ok (n_attrs n)
         \<and> (n_user_id n, n_github_id n) \<notin> set (map repo_key rows)
         \<and> seq \<notin> set (map r_id rows)
      then flush_inserts t (Suc seq) (rows @ [new_row t seq n]) ns
      else (Suc seq, Inl SQLAlchemyError))"

text \<open>
  \<^verbatim>\<open>db.commit()\<close>: flush, then make the transaction's view the committed database and
  end the transaction. When the flush fails nothing is committed: the transaction is
  rolled back and the exception propagates.
\<close>

definition commit :: "env \<Rightarrow> nat \<Rightarrow> sync_loop \<Rightarrow> session \<Rightarrow> session \<times> (exn + unit)" where
  "commit e uid st db =
     (let d1 = flush_user (utcnow_sync e) (utcnow_commit e) uid (view db) in
      case flush_updates (utcnow_commit e) (identity_map st) d1 of
        Inl err \<Rightarrow> (rollback db, Inl err)
      | Inr d2 \<Rightarrow>
          (case flush_inserts (utcnow_commit e) (repositories_id_seq db)
                  (repositories d2) (pending st) of
             (seq, Inl err) \<Rightarrow> ((rollback db)\<lparr>repositories_id_seq := seq\<rparr>, Inl err)
           | (seq, Inr rows) \<Rightarrow>
               (db\<lparr>committed := d2\<lparr>repositories := rows\<rparr>, txn := None,
                   repositories_id_seq := seq\<rparr>,
                Inr ())))"

section \<open>The response (main.py, lines 152-166)\<close>

text \<open>
  \<^verbatim>\<open>order_by(Repository.name.asc())\<close>: the rows in ascending order of \<^verbatim>\<open>name\<close> under
  the database's collation, a NULL name last. SQL leaves the order of rows with equal
  names open; here they keep the order of the table.
\<close>

definition name_le :: "(string \<Rightarrow> string \<Rightarrow> bool) \<Rightarrow> repository_row \<Rightarrow> repository_row \<Rightarrow> bool" where
  "name_le le a b =
     (case r_name b of
        None \<Rightarrow> True
      | Some y \<Rightarrow> (case r_name a of None \<Rightarrow> False | Some x \<Rightarrow> le x y))"

fun insort_by :: "('a \<Rightarrow> 'a \<Rightarrow> bool) \<Rightarrow> 'a \<Rightarrow> 'a list \<Rightarrow> 'a list" where
  "insort_by le x [] = [x]"
| "insort_by le x (y # ys) = (if le x y then x # y # ys else y # insort_by le x ys)"

definition order_by :: "('a \<Rightarrow> 'a \<Rightarrow> bool) \<Rightarrow> 'a list \<Rightarrow> 'a list" where
  "order_by le xs = foldr (insort_by le) xs []"

text \<open>
  \<^verbatim>\<open>RepositoryBase.from_orm(r)\<close>: \<^verbatim>\<open>name: str\<close> refuses \<^verbatim>\<open>None\<close>, \<^verbatim>\<open>html_url: HttpUrl\<close>
  refuses \<^verbatim>\<open>None\<close> and every text that is not an http(s) URL.
\<close>

definition from_orm :: "env \<Rightarrow> repository_row \<Rightarrow> repository_base option" where
  "from_orm e r =
     (case r_name r of
        None \<Rightarrow> None
      | Some name \<Rightarrow>
          (case r_html_url r of
             None \<Rightarrow> None
           | Some h \<Rightarrow>
               (case parse_http_url e h of
                  None \<Rightarrow> None
                | Some url \<Rightarrow>
                    Some \<lparr>rb_name = name, rb_html_url = url,
                          rb_description = r_description r, rb_language = r_language r\<rparr>)))"

definition user_repositories :: "database \<Rightarrow> nat \<Rightarrow> repository_row list" where
  "user_repositories d uid = filter (\<lambda>r. r_user_id r = uid) (repositories d)"

definition build_response :: "env \<Rightarrow> nat \<Rightarrow> bool \<Rightarrow> session \<Rightarrow> session \<times> (exn + user_sync_response)" where
  "build_response e uid is_new db =
     (let db1 = autobegin db in
      case find (\<lambda>u. u_id u = uid) (users (view db1)) of
        None \<Rightarrow> (db1, Inl SQLAlchemyError)
      | Some user \<Rightarrow>
          (let repos = order_by (name_le (collate_le e)) (user_repositories (view db1) uid) in
           case those (map (from_orm e) repos) of
             None \<Rightarrow> (db1, Inl ValidationError)
           | Some rs \<Rightarrow>
               (db1, Inr \<lparr>sr_username = u_username user,
                          sr_status = (if is_new then ''new'' else ''updated''),
                          sr_is_new = is_new,
                          sr_repositories = rs\<rparr>)))"

section \<open>upsert_user_and_repos (main.py, lines 87-166)\<close>

definition get_or_create_user :: "env \<Rightarrow> session \<Rightarrow> string \<Rightarrow> session \<times> (exn + user_row \<times> bool)" where
  "get_or_create_user e db username =
     (let db0 = autobegin db in
      case find_user (view db0) username of
        Some user \<Rightarrow> (db0, Inr (user, False))
      | None \<Rightarrow>
          (case insert_user (utcnow_flush e) db0 username of
             (db1, Inl err) \<Rightarrow> (db1, Inl err)
           | (db1, Inr user) \<Rightarrow> (db1, Inr (user, True))))"

definition upsert_user_and_repos :: "env \<Rightarrow> session \<Rightarrow> string \<Rightarrow> repo_dict list
    \<Rightarrow> session \<times> (exn + user_sync_response)" where
  "upsert_user_and_repos e db username repos_data =
     (case get_or_create_user e db username of
        (db1, Inl err) \<Rightarrow> (db1, Inl err)
      | (db1, Inr (user, is_new)) \<Rightarrow>
          (let st = foldl (upsert_repo (view db1) (u_id user)) loop_init repos_data;
               db2 = db1\<lparr>txn := Some (bulk_delete (u_id user) (github_repo_ids st) (view db1))\<rparr>
           in case commit e (u_id user) st db2 of
                (db3, Inl err) \<Rightarrow> (db3, Inl err)
              | (db3, Inr _) \<Rightarrow> build_response e (u_id user) is_new db3))"

section \<open>Fetching and the refresh job (main.py, lines 57-84 and 169-216)\<close>

text \<open>
  The answer of \<^verbatim>\<open>client.get(url)\<close>: its status code and what \<^verbatim>\<open>response.json()\<close>
  gives: a list of records, some other JSON value, or no JSON at all (\<open>None\<close>, where
  \<^verbatim>\<open>json()\<close> raises).
\<close>

datatype json = JList "repo_dict list" | JOther

record response =
  status_code :: nat
  body :: "json option"

definition github_api_url :: "string \<Rightarrow> string" where
  "github_api_url username = ''https://api.github.com/users/'' @ username @ ''/repos''"

text \<open>The decimal text of a status code, as the f-string of line 73 writes it.\<close>

definition digit_char :: "nat \<Rightarrow> char" where
  "digit_char d = ''0123456789'' ! d"

fun string_of_nat :: "nat \<Rightarrow> string" where
  "string_of_nat n =
     (if 10 \<le> n then string_of_nat (n div 10) @ [digit_char (n mod 10)]
      else [digit_char n])"

declare string_of_nat.simps [simp del]

definition fetch_github_repos :: "(string \<Rightarrow> exn + response) \<Rightarrow> string \<Rightarrow> exn + repo_dict list" where
  "fetch_github_repos client_get username =
     (case client_get (github_api_url username) of
        Inl err \<Rightarrow> Inl err
      | Inr response \<Rightarrow>
          if status_code response = 404
          then Inl (HTTPException 404 ''GitHub user not found.'')
          else if status_code response \<noteq> 200
          then Inl (HTTPException 502
                 (''Error querying GitHub: '' @ string_of_nat (status_code response)))
          else
            (case body response of
               None \<Rightarrow> Inl JSONDecodeError
             | Some JOther \<Rightarrow> Inl (HTTPException 502 ''Unexpected response from GitHub API.'')
             | Some (JList data) \<Rightarrow> Inr (take 5 data)))"

text \<open>
  \<^verbatim>\<open>sync_github_user\<close>: the endpoint. The session comes from \<^verbatim>\<open>get_db\<close>, which closes it
  when the request is over, whatever happened.
\<close>

definition SessionLocal :: "session \<Rightarrow> session" where
  "SessionLocal db = db\<lparr>txn := None\<rparr>"

definition sync_github_user :: "env \<Rightarrow> (string \<Rightarrow> exn + response) \<Rightarrow> session \<Rightarrow> string
    \<Rightarrow> session \<times> (exn + user_sync_response)" where
  "sync_github_user e client_get srv username =
     (let db = SessionLocal srv in
      case fetch_github_repos client_get username of
        Inl err \<Rightarrow> (close db, Inl err)
      | Inr repos_data \<Rightarrow>
          (case upsert_user_and_repos e db username repos_data of
             (db1, r) \<Rightarrow> (close db1, r)))"

text \<open>
  \<^verbatim>\<open>refresh_user\<close>: only an \<^verbatim>\<open>HTTPException\<close> is caught; its detail is printed. The
  result is the lines printed, or the exception that escapes.
\<close>

definition refresh_user :: "env \<Rightarrow> (string \<Rightarrow> exn + response) \<Rightarrow> session \<Rightarrow> string
    \<Rightarrow> session \<times> (exn + string list)" where
  "refresh_user e client_get db username =
     (case fetch_github_repos client_get username of
        Inl (HTTPException code detail) \<Rightarrow>
          (db, Inr [''Error updating user '' @ username @ '': '' @ detail])
      | Inl err \<Rightarrow> (db, Inl err)
      | Inr repos_data \<Rightarrow>
          (case upsert_user_and_repos e db username repos_data of
             (db1, Inl (HTTPException code detail)) \<Rightarrow>
               (db1, Inr [''Error updating user '' @ username @ '': '' @ detail])
           | (db1, Inl err) \<Rightarrow> (db1, Inl err)
           | (db1, Inr r) \<Rightarrow> (db1, Inr [])))"

text \<open>
  \<^verbatim>\<open>db.query(User).all()\<close>: every row of \<^verbatim>\<open>users\<close>. The query has no ORDER BY, so the rows
  come in an order of the database's choosing (in PostgreSQL the order of the heap,
  which an UPDATE of a row can change): \<open>heap_position\<close> tells where each row lies, and
  the rows are read by ascending position.
\<close>

definition query_all_users :: "(user_row \<Rightarrow> nat) \<Rightarrow> database \<Rightarrow> user_row list" where
  "query_all_users heap_position d =
     order_by (\<lambda>a b. heap_position a \<le> heap_position b) (users d)"

text \<open>
  \<^verbatim>\<open>refresh_all_users\<close>: the usernames are read in one session, which is closed; then
  every username gets a session of its own, closed in a \<^verbatim>\<open>finally\<close>. An exception that
  \<^verbatim>\<open>refresh_user\<close> lets through ends the loop. The result is the store, the lines
  printed, and the exception that ended the job, if one did. The environment of a call
  (the clock) is given per username.
\<close>

fun refresh_loop :: "(string \<Rightarrow> env) \<Rightarrow> (string \<Rightarrow> exn + response) \<Rightarrow> session \<Rightarrow> string list
    \<Rightarrow> session \<times> string list \<times> exn option" where
  "refresh_loop e client_get srv [] = (srv, [], None)"
| "refresh_loop e client_get srv (username # usernames) =
     (case refresh_user (e username) client_get (SessionLocal srv) username of
        (db1, Inl err) \<Rightarrow> (close db1, [], Some err)
      | (db1, Inr out) \<Rightarrow>
          (case refresh_loop e client_get (close db1) usernames of
             (srv2, outs, r) \<Rightarrow> (srv2, out @ outs, r)))"

definition refresh_all_users :: "(user_row \<Rightarrow> nat) \<Rightarrow> (string \<Rightarrow> env)
    \<Rightarrow> (string \<Rightarrow> exn + response) \<Rightarrow> session \<Rightarrow> session \<times> string list \<times> exn option" where
  "refresh_all_users heap_position e client_get srv =
     (let db = autobegin (SessionLocal srv);
          all_users = query_all_users heap_position (view db);
          usernames = map u_username all_users
      in refresh_loop e client_get (close db) usernames)"

section \<open>The states the service reaches\<close>

text \<open>
  \<^verbatim>\<open>Base.metadata.create_all\<close> on a new database: both tables empty, the sequences
  at their first value.
\<close>

definition init_session :: session where
  "init_session =
     \<lparr>committed = \<lparr>users = [], repositories = []\<rparr>, txn = None,
      users_id_seq = 1, repositories_id_seq = 1\<rparr>"

text \<open>
  Every write of the service is one call of \<^verbatim>\<open>upsert_user_and_repos\<close> on a new session,
  which is closed afterwards (by \<^verbatim>\<open>get_db\<close> or by the \<^verbatim>\<open>finally\<close> of the refresh job).
\<close>

inductive reachable :: "session \<Rightarrow> bool" where
  init: "reachable init_session"
| sync: "reachable srv \<Longrightarrow>
     reachable (close (fst (upsert_user_and_repos e (SessionLocal srv) username repos_data)))"

text \<open>
  The constraints the schema declares: both primary keys, the unique index on
  \<^verbatim>\<open>username\<close> and its \<^verbatim>\<open>String(39)\<close>, \<^verbatim>\<open>uq_user_repo\<close> on \<^verbatim>\<open>(user_id, github_id)\<close>, the
  column constraints of \<^verbatim>\<open>Repository\<close>, and the foreign key to \<^verbatim>\<open>users.id\<close>.
\<close>

definition constraints_ok :: "database \<Rightarrow> bool" where
  "constraints_ok d \<longleftrightarrow>
     distinct (map u_id (users d)) \<and> distinct (map u_username (users d)) \<and>
     list_all (\<lambda>n. length n \<le> 39) (map u_username (users d)) \<and>
     distinct (map r_id (repositories d)) \<and> distinct (map repo_key (repositories d)) \<and>
     list_all repository_columns_ok (map attrs_of_row (repositories d)) \<and>
     set (map r_user_id (repositories d)) \<subseteq> set (map u_id (users d))"

text \<open>
  The states that calls of \<^verbatim>\<open>upsert_user_and_repos\<close>, for any usernames and lists,
  lead to from a given state.
\<close>

inductive later :: "session \<Rightarrow> session \<Rightarrow> bool" where
  now: "later srv srv"
| sync: "later srv srv1 \<Longrightarrow>
     later srv (close (fst (upsert_user_and_repos e (SessionLocal srv1) username repos_data)))"

section \<open>Records of a fetched list\<close>

text \<open>
  The external ids of the records that carry one, in the order of the list, and the
  last record of the list that carries a given id.
\<close>

definition valid_ids :: "repo_dict list \<Rightarrow> int list" where
  "valid_ids repos_data =
     concat (map (\<lambda>repo. case d_id repo of None \<Rightarrow> [] | Some g \<Rightarrow> [g]) repos_data)"

definition last_record :: "int \<Rightarrow> repo_dict list \<Rightarrow> repo_dict option" where
  "last_record g repos_data = find (\<lambda>repo. d_id repo = Some g) (rev repos_data)"

section \<open>Auxiliary notions for the proofs\<close>

text \<open>
  What the loop of lines 112-139 leaves in the session, said without the loop: the new
  objects (one for every record with an id that the query did not find), whether a
  record's query gave the row with a given primary key, the rows the bulk DELETE
  keeps, and the persistent objects at the end of the loop.
\<close>

definition new_objects :: "database \<Rightarrow> nat \<Rightarrow> repo_dict list \<Rightarrow> repository_new list" where
  "new_objects v uid repos_data =
     concat (map (\<lambda>repo. case d_id repo of
                    None \<Rightarrow> []
                  | Some g \<Rightarrow> (case find_repository v uid g of
                        None \<Rightarrow> [\<lparr>n_user_id = uid, n_github_id = g, n_attrs = attrs_of_dict repo\<rparr>]
                      | Some row \<Rightarrow> [])) repos_data)"

definition hits :: "database \<Rightarrow> nat \<Rightarrow> nat \<Rightarrow> repo_dict \<Rightarrow> bool" where
  "hits v uid pk repo =
     (case d_id repo of
        None \<Rightarrow> False
      | Some g \<Rightarrow> (case find_repository v uid g of None \<Rightarrow> False | Some row \<Rightarrow> r_id row = pk))"

definition new_key :: "repository_new \<Rightarrow> nat \<times> int" where
  "new_key n = (n_user_id n, n_github_id n)"

definition kept_rows :: "database \<Rightarrow> nat \<Rightarrow> repo_dict list \<Rightarrow> repository_row list" where
  "kept_rows v uid repos_data =
     filter (\<lambda>r. \<not> (r_user_id r = uid \<and> r_github_id r \<notin> set (valid_ids repos_data))) (repositories v)"

definition loaded :: "database \<Rightarrow> nat \<Rightarrow> repo_dict list \<Rightarrow> nat \<Rightarrow> repository_row option" where
  "loaded v uid repos_data = identity_map (foldl (upsert_repo v uid) loop_init repos_data)"

text \<open>
  The user's rows agree with a fetched list: they carry exactly its external ids, and
  every row has the attributes of the last record with its id.
\<close>

definition in_sync :: "database \<Rightarrow> nat \<Rightarrow> repo_dict list \<Rightarrow> bool" where
  "in_sync d uid repos_data \<longleftrightarrow>
     set (map r_github_id (user_repositories d uid)) = set (valid_ids repos_data) \<and>
     list_all (\<lambda>row. map_option attrs_of_dict (last_record (r_github_id row) repos_data) =
                 Some (attrs_of_row row))
       (user_repositories d uid)"

section \<open>Example data\<close>

text \<open>
  A database whose collation is the byte order of the text, a URL check that accepts
  what starts with \<^verbatim>\<open>https://\<close>, and the clock readings of three calls.
\<close>

definition example_env :: env where
  "example_env =
     \<lparr>collate_le = (\<le>),
      parse_http_url = (\<lambda>url. if take 8 url = ''https://'' then Some url else None),
      utcnow_flush = 10, utcnow_sync = 11, utcnow_commit = 12\<rparr>"

definition later_env :: env where
  "later_env = example_env\<lparr>utcnow_flush := 20, utcnow_sync := 21, utcnow_commit := 22\<rparr>"

definition third_env :: env where
  "third_env = example_env\<lparr>utcnow_flush := 30, utcnow_sync := 31, utcnow_commit := 32\<rparr>"

definition example_repo :: "int \<Rightarrow> string \<Rightarrow> repo_dict" where
  "example_repo g name =
     \<lparr>d_id = Some g, d_name = Some name,
      d_html_url = Some (''https://github.com/example/'' @ name),
      d_description = None, d_language = Some ''Python''\<rparr>"

definition example_base :: "string \<Rightarrow> repository_base" where
  "example_base name =
     \<lparr>rb_name = name, rb_html_url = ''https://github.com/example/'' @ name,
      rb_description = None, rb_language = Some ''Python''\<rparr>"

text \<open>
  alice is synced on the empty store with three repositories (\<open>first_run\<close>, which
  leaves \<open>alice_synced\<close>), then again with the same list (\<open>second_run\<close>), with two of
  the three (\<open>prune_run\<close>), and with the first one renamed (\<open>rename_run\<close>).
\<close>

definition alice_repos :: "repo_dict list" where
  "alice_repos = [example_repo 1 ''zeta'', example_repo 2 ''alpha'', example_repo 3 ''mid'']"

definition first_run :: "session \<times> (exn + user_sync_response)" where
  "first_run =
     upsert_user_and_repos example_env (SessionLocal init_session) ''alice'' alice_repos"

definition alice_response :: user_sync_response where
  "alice_response =
     \<lparr>sr_username = ''alice'', sr_status = ''new'', sr_is_new = True,
      sr_repositories = [example_base ''alpha'', example_base ''mid'', example_base ''zeta'']\<rparr>"

definition alice_synced :: session where
  "alice_synced =
     close (fst (upsert_user_and_repos example_env (SessionLocal init_session) ''alice'' alice_repos))"

definition second_run :: "session \<times> (exn + user_sync_response)" where
  "second_run =
     upsert_user_and_repos later_env (SessionLocal (close (fst first_run))) ''alice'' alice_repos"

definition prune_run :: "session \<times> (exn + user_sync_response)" where
  "prune_run =
     upsert_user_and_repos later_env (SessionLocal alice_synced) ''alice''
       [example_repo 1 ''zeta'', example_repo 2 ''alpha'']"

definition rename_run :: "session \<times> (exn + user_sync_response)" where
  "rename_run =
     upsert_user_and_repos later_env (SessionLocal alice_synced) ''alice''
       [example_repo 1 ''omega'', example_repo 2 ''alpha'', example_repo 3 ''mid'']"

text \<open>
  A record without a name, and a list with a record that has no id.
\<close>

definition nameless_repo :: repo_dict where
  "nameless_repo = (example_repo 1 ''zeta'')\<lparr>d_name := None\<rparr>"

definition nameless_run :: "session \<times> (exn + user_sync_response)" where
  "nameless_run =
     upsert_user_and_repos example_env (SessionLocal init_session) ''alice'' [nameless_repo]"

definition no_id_repo :: repo_dict where
  "no_id_repo = (example_repo 0 ''broken'')\<lparr>d_id := None\<rparr>"

definition malformed_run :: "session \<times> (exn + user_sync_response)" where
  "malformed_run =
     upsert_user_and_repos example_env (SessionLocal init_session) ''alice''
       [no_id_repo, example_repo 1 ''zeta'', example_repo 2 ''alpha'']"

text \<open>
  Two users: ghost is synced first, then alice. The upstream then answers 404 for ghost
  and a list of two repositories for everyone else.
\<close>

definition ghost_synced :: session where
  "ghost_synced =
     close (fst (upsert_user_and_repos example_env (SessionLocal init_session) ''ghost''
       [example_repo 7 ''haunt'']))"

definition two_users :: session where
  "two_users =
     close (fst (upsert_user_and_repos later_env (SessionLocal ghost_synced) ''alice'' alice_repos))"

definition example_client :: "string \<Rightarrow> exn + response" where
  "example_client url =
     (if url = github_api_url ''ghost'' then Inr \<lparr>status_code = 404, body = None\<rparr>
      else Inr \<lparr>status_code = 200,
                body = Some (JList [example_repo 1 ''omega'', example_repo 2 ''alpha''])\<rparr>)"

definition alice_again :: "session \<times> (exn + user_sync_response)" where
  "alice_again =
     upsert_user_and_repos third_env (SessionLocal two_users) ''alice''
       [example_repo 1 ''omega'', example_repo 2 ''alpha'']"

text \<open>
  An upstream that answers ghost with the status 200 and a JSON value that is not a list.
\<close>

definition confused_client :: "string \<Rightarrow> exn + response" where
  "confused_client url =
     (if url = github_api_url ''ghost'' then Inr \<lparr>status_code = 200, body = Some JOther\<rparr>
      else example_client url)"

text \<open>
  A database whose collation disregards case, as the collations of a language do before
  anything else: two names are compared with their capitals put in lower case. alice is
  synced there with the repositories Beta and alpha.
\<close>

definition lower :: "char \<Rightarrow> char" where
  "lower c =
     (case map_of (zip ''ABCDEFGHIJKLMNOPQRSTUVWXYZ'' ''abcdefghijklmnopqrstuvwxyz'') c of
        None \<Rightarrow> c
      | Some l \<Rightarrow> l)"

definition folding_env :: env where
  "folding_env = example_env\<lparr>collate_le := (\<lambda>a b. map lower a \<le> map lower b)\<rparr>"

definition folded_run :: "session \<times> (exn + user_sync_response)" where
  "folded_run =
     upsert_user_and_repos folding_env (SessionLocal init_session) ''alice''
       [example_repo 1 ''Beta'', example_repo 2 ''alpha'']"

section \<open>Sessions and the user row\<close>

lemma view_autobegin: "view (autobegin db) = view db"
  by (simp add: view_def autobegin_def split: option.splits)

lemma view_txn_Some [simp]: "view (db\<lparr>txn := Some d\<rparr>) = d"
  by (simp add: view_def)

lemma view_txn_None [simp]: "view (db\<lparr>txn := None\<rparr>) = committed db"
  by (simp add: view_def)

lemma committed_rollback [simp]: "committed (rollback db) = committed db"
  by (simp add: rollback_def)

lemma committed_autobegin [simp]: "committed (autobegin db) = committed db"
  by (simp add: autobegin_def split: option.splits)

lemma txn_autobegin: "txn (autobegin db) = Some (view db)"
  by (simp add: autobegin_def view_def split: option.splits)

lemma find_append_None: "find P xs = None \<Longrightarrow> find P (xs @ ys) = find P ys"
  by (induction xs) (auto split: if_splits)

lemma find_None_set: "find P xs = None \<longleftrightarrow> (\<forall>x \<in> set xs. \<not> P x)"
  by (induction xs) auto

lemma find_Some_set: "find P xs = Some x \<Longrightarrow> x \<in> set xs \<and> P x"
  by (induction xs) (auto split: if_splits)

lemma insert_user_result:
  assumes "insert_user t db username = (db1, r)"
  shows "committed db1 = committed db"
    and "r = Inl err \<Longrightarrow> err = SQLAlchemyError"
    and "r = Inr user \<Longrightarrow>
          u_id user = users_id_seq db \<and> u_username user = username \<and>
          u_id user \<notin> set (map u_id (users (view db))) \<and>
          username \<notin> set (map u_username (users (view db))) \<and>
          txn db1 = Some ((view db)\<lparr>users := users (view db) @ [user]\<rparr>)"
  using assms by (auto simp: insert_user_def Let_def split: if_splits)

lemma get_or_create_user_committed:
  "get_or_create_user e db username = (db1, r) \<Longrightarrow> committed db1 = committed db"
  by (auto simp: get_or_create_user_def Let_def split: option.splits prod.splits sum.splits
      dest: insert_user_result(1))

lemma get_or_create_user_Inl:
  "get_or_create_user e db username = (db1, Inl err) \<Longrightarrow> err = SQLAlchemyError"
  by (auto simp: get_or_create_user_def Let_def split: option.splits prod.splits sum.splits
      dest: insert_user_result(2))

lemma get_or_create_user_found:
  assumes "get_or_create_user e db username = (db1, Inr (user, is_new))"
    and "find_user (view db) username = Some u"
  shows "user = u \<and> \<not> is_new \<and> txn db1 = Some (view db)"
  using assms
  by (auto simp: get_or_create_user_def Let_def view_autobegin txn_autobegin)

lemma get_or_create_user_new:
  assumes "get_or_create_user e db username = (db1, Inr (user, is_new))"
    and "find_user (view db) username = None"
  shows "is_new \<and> u_username user = username \<and>
         u_id user \<notin> set (map u_id (users (view db))) \<and>
         txn db1 = Some ((view db)\<lparr>users := users (view db) @ [user]\<rparr>)"
proof -
  from assms have ins: "insert_user (utcnow_flush e) (autobegin db) username = (db1, Inr user)"
    and new: "is_new"
    by (auto simp: get_or_create_user_def Let_def view_autobegin split: prod.splits sum.splits)
  from insert_user_result(3) [OF ins refl] new show ?thesis
    unfolding view_autobegin by blast
qed

section \<open>The loop over the fetched records\<close>

lemma attrs_of_row_set_attrs [simp]: "attrs_of_row (set_attrs a r) = a"
  by (cases a) (simp add: attrs_of_row_def set_attrs_def)

lemma set_attrs_keys [simp]:
  "r_id (set_attrs a r) = r_id r" "r_user_id (set_attrs a r) = r_user_id r"
  "r_github_id (set_attrs a r) = r_github_id r" "r_created_at (set_attrs a r) = r_created_at r"
  "r_updated_at (set_attrs a r) = r_updated_at r"
  by (cases a; simp add: set_attrs_def)+

lemma set_attrs_same: "attrs_of_row r = a \<Longrightarrow> set_attrs a r = r"
  by (cases a) (auto simp: attrs_of_row_def set_attrs_def)

lemma upsert_repo_no_id [simp]: "d_id repo = None \<Longrightarrow> upsert_repo v uid st repo = st"
  by (simp add: upsert_repo_def)

lemma loop_github_repo_ids:
  "github_repo_ids (foldl (upsert_repo v uid) st repos_data) = github_repo_ids st @ valid_ids repos_data"
  by (induction repos_data arbitrary: st)
     (auto simp: upsert_repo_def valid_ids_def Let_def split: option.splits)

lemma loop_pending:
  "pending (foldl (upsert_repo v uid) st repos_data) = pending st @ new_objects v uid repos_data"
  by (induction repos_data arbitrary: st)
     (auto simp: upsert_repo_def new_objects_def Let_def split: option.splits)

lemma upsert_repo_identity_map:
  "map_option attrs_of_row (identity_map (upsert_repo v uid st repo) pk) =
     (if hits v uid pk repo then Some (attrs_of_dict repo)
      else map_option attrs_of_row (identity_map st pk))"
  by (simp add: upsert_repo_def hits_def Let_def split: option.splits)

lemma loop_identity_map:
  "map_option attrs_of_row (identity_map (foldl (upsert_repo v uid) st repos_data) pk) =
     (case find (hits v uid pk) (rev repos_data) of
        None \<Rightarrow> map_option attrs_of_row (identity_map st pk)
      | Some repo \<Rightarrow> Some (attrs_of_dict repo))"
proof (induction repos_data rule: rev_induct)
  case Nil
  then show ?case by simp
next
  case (snoc repo repos_data)
  then show ?case
    by (simp add: upsert_repo_identity_map)
qed

lemma loop_init_simps [simp]:
  "github_repo_ids loop_init = []" "identity_map loop_init pk = None" "pending loop_init = []"
  by (simp_all add: loop_init_def)

lemma hits_row:
  assumes "hits v uid pk repo"
  shows "\<exists>g row. d_id repo = Some g \<and> find_repository v uid g = Some row \<and> r_id row = pk"
  using assms by (auto simp: hits_def split: option.splits)

lemma find_repository_Some:
  "find_repository v uid g = Some row \<Longrightarrow>
     row \<in> set (repositories v) \<and> r_user_id row = uid \<and> r_github_id row = g"
  by (auto simp: find_repository_def dest: find_Some_set)

lemma find_repository_None:
  "find_repository v uid g = None \<longleftrightarrow> (uid, g) \<notin> set (map repo_key (repositories v))"
  by (auto simp: find_repository_def find_None_set repo_key_def)

lemma valid_ids_set: "g \<in> set (valid_ids repos_data) \<longleftrightarrow> (\<exists>repo \<in> set repos_data. d_id repo = Some g)"
  by (induction repos_data) (auto simp: valid_ids_def split: option.splits)

lemma loop_identity_map_row:
  assumes "identity_map (foldl (upsert_repo v uid) loop_init repos_data) pk = Some obj"
  shows "\<exists>row \<in> set (repositories v). r_id row = pk \<and> r_user_id row = uid \<and>
           r_github_id row \<in> set (valid_ids repos_data)"
proof -
  from assms loop_identity_map [of v uid loop_init repos_data pk]
  obtain repo where f: "find (hits v uid pk) (rev repos_data) = Some repo"
    by (auto split: option.splits)
  then have "repo \<in> set repos_data" and "hits v uid pk repo"
    by (auto dest: find_Some_set)
  then show ?thesis
    by (auto dest!: hits_row find_repository_Some simp: valid_ids_set)
qed

lemma new_objects_keys:
  "n \<in> set (new_objects v uid repos_data) \<Longrightarrow>
     n_user_id n = uid \<and> n_github_id n \<in> set (valid_ids repos_data) \<and>
     find_repository v uid (n_github_id n) = None"
  by (auto simp: new_objects_def valid_ids_set split: option.splits)

lemma new_objects_complete:
  assumes "g \<in> set (valid_ids repos_data)" and "find_repository v uid g = None"
  shows "g \<in> set (map n_github_id (new_objects v uid repos_data))"
  using assms by (force simp: new_objects_def valid_ids_set split: option.splits)

section \<open>Flush, commit and response\<close>

lemma update_row_keys [simp]:
  "r_id (update_row t m row) = r_id row" "r_user_id (update_row t m row) = r_user_id row"
  "r_github_id (update_row t m row) = r_github_id row" "repo_key (update_row t m row) = repo_key row"
  by (simp_all add: update_row_def repo_key_def split: option.splits)

lemma update_row_attrs:
  "attrs_of_row (update_row t m row) =
     (case map_option attrs_of_row (m (r_id row)) of None \<Rightarrow> attrs_of_row row | Some a \<Rightarrow> a)"
  by (auto simp: update_row_def attrs_of_row_def set_attrs_def split: option.splits)

lemma update_row_clean:
  "map_option attrs_of_row (m (r_id row)) = Some (attrs_of_row row) \<Longrightarrow> update_row t m row = row"
  by (auto simp: update_row_def split: option.splits)

lemma update_row_untouched: "m (r_id row) = None \<Longrightarrow> update_row t m row = row"
  by (simp add: update_row_def)

lemma update_ok_clean:
  "map_option attrs_of_row (m (r_id row)) = Some (attrs_of_row row) \<Longrightarrow> update_ok m row"
  by (auto simp: update_ok_def split: option.splits)

lemma flush_updates_Inr:
  "flush_updates t m d = Inr d2 \<Longrightarrow>
     users d2 = users d \<and> repositories d2 = map (update_row t m) (repositories d) \<and>
     list_all (update_ok m) (repositories d)"
  by (auto simp: flush_updates_def split: if_splits)

lemma flush_updates_Inl: "flush_updates t m d = Inl err \<Longrightarrow> err = SQLAlchemyError"
  by (auto simp: flush_updates_def split: if_splits)

lemma flush_inserts_Inl:
  "flush_inserts t seq rows ns = (seq', Inl err) \<Longrightarrow> err = SQLAlchemyError"
  by (induction ns arbitrary: seq rows) (auto split: if_splits)

lemma new_row_simps [simp]:
  "r_id (new_row t pk n) = pk" "repo_key (new_row t pk n) = new_key n"
  "attrs_of_row (new_row t pk n) = n_attrs n" "r_user_id (new_row t pk n) = n_user_id n"
  "r_github_id (new_row t pk n) = n_github_id n"
  by (simp_all add: new_row_def repo_key_def new_key_def)

lemma flush_inserts_Inr:
  "flush_inserts t seq rows ns = (seq', Inr rows') \<Longrightarrow>
     \<exists>news. rows' = rows @ news \<and> map repo_key news = map new_key ns \<and>
            map attrs_of_row news = map n_attrs ns"
proof (induction ns arbitrary: seq rows)
  case Nil
  then show ?case by simp
next
  case (Cons n ns)
  from Cons.prems have ok: "flush_inserts t (Suc seq) (rows @ [new_row t seq n]) ns = (seq', Inr rows')"
    by (simp split: if_splits)
  from Cons.IH [OF ok] obtain news where
    "rows' = (rows @ [new_row t seq n]) @ news" "map repo_key news = map new_key ns"
    "map attrs_of_row news = map n_attrs ns" by blast
  then have "rows' = rows @ (new_row t seq n # news) \<and>
     map repo_key (new_row t seq n # news) = map new_key (n # ns) \<and>
     map attrs_of_row (new_row t seq n # news) = map n_attrs (n # ns)"
    by simp
  then show ?case by blast
qed

lemma flush_inserts_distinct_key:
  "flush_inserts t seq rows ns = (seq', Inr rows') \<Longrightarrow> distinct (map repo_key rows) \<Longrightarrow>
     distinct (map repo_key rows')"
proof (induction ns arbitrary: seq rows)
  case Nil
  then show ?case by simp
next
  case (Cons n ns)
  from Cons.prems(1) have ok: "flush_inserts t (Suc seq) (rows @ [new_row t seq n]) ns = (seq', Inr rows')"
    and fresh: "new_key n \<notin> set (map repo_key rows)"
    by (simp_all add: new_key_def split: if_splits)
  from fresh Cons.prems(2) have "distinct (map repo_key (rows @ [new_row t seq n]))"
    by simp
  with ok show ?case by (rule Cons.IH)
qed

lemma flush_inserts_distinct_id:
  "flush_inserts t seq rows ns = (seq', Inr rows') \<Longrightarrow> distinct (map r_id rows) \<Longrightarrow>
     distinct (map r_id rows')"
proof (induction ns arbitrary: seq rows)
  case Nil
  then show ?case by simp
next
  case (Cons n ns)
  from Cons.prems(1) have ok: "flush_inserts t (Suc seq) (rows @ [new_row t seq n]) ns = (seq', Inr rows')"
    and fresh: "seq \<notin> set (map r_id rows)"
    by (simp_all split: if_splits)
  from fresh Cons.prems(2) have "distinct (map r_id (rows @ [new_row t seq n]))"
    by simp
  with ok show ?case by (rule Cons.IH)
qed

lemma flush_inserts_columns_ok:
  "flush_inserts t seq rows ns = (seq', Inr rows') \<Longrightarrow> n \<in> set ns \<Longrightarrow>
     repository_columns_ok (n_attrs n)"
  by (induction ns arbitrary: seq rows) (auto split: if_splits)

lemma flush_inserts_Nil_iff: "flush_inserts t seq rows [] = (seq', Inr rows') \<longleftrightarrow> seq' = seq \<and> rows' = rows"
  by auto

lemma flush_user_simps [simp]:
  "repositories (flush_user ts t uid d) = repositories d"
  "map u_id (users (flush_user ts t uid d)) = map u_id (users d)"
  "map u_username (users (flush_user ts t uid d)) = map u_username (users d)"
  by (simp_all add: flush_user_def)

lemma bulk_delete_simps [simp]:
  "users (bulk_delete uid ids d) = users d"
  "repositories (bulk_delete uid ids d) =
     filter (\<lambda>r. \<not> (r_user_id r = uid \<and> r_github_id r \<notin> set ids)) (repositories d)"
  by (simp_all add: bulk_delete_def)

lemma commit_Inl:
  "commit e uid st db = (db3, Inl err) \<Longrightarrow> committed db3 = committed db \<and> err = SQLAlchemyError"
  by (auto simp: commit_def Let_def split: sum.splits prod.splits
      dest: flush_updates_Inl flush_inserts_Inl)

lemma commit_Inr:
  assumes "commit e uid st db = (db3, Inr x)"
  shows "\<exists>seq.
     list_all (update_ok (identity_map st)) (repositories (view db)) \<and>
     flush_inserts (utcnow_commit e) (repositories_id_seq db)
        (map (update_row (utcnow_commit e) (identity_map st)) (repositories (view db)))
        (pending st) = (seq, Inr (repositories (committed db3))) \<and>
     users (committed db3) = users (flush_user (utcnow_sync e) (utcnow_commit e) uid (view db)) \<and>
     txn db3 = None"
  using assms
  by (auto simp: commit_def Let_def split: sum.splits prod.splits dest!: flush_updates_Inr)

lemma build_response_committed:
  "build_response e uid is_new db = (db', r) \<Longrightarrow> committed db' = committed db \<and> txn db' = Some (view db)"
  by (auto simp: build_response_def Let_def txn_autobegin split: option.splits)

lemma build_response_Inl:
  assumes "build_response e uid is_new db = (db', Inl err)"
    and "uid \<in> set (map u_id (users (view db)))"
  shows "err = ValidationError"
proof -
  from assms(2) have "find (\<lambda>u. u_id u = uid) (users (view db)) \<noteq> None"
    by (auto simp: find_None_set)
  with assms(1) show ?thesis
    by (auto simp: build_response_def Let_def view_autobegin split: option.splits)
qed

lemma build_response_Inr:
  assumes "build_response e uid is_new db = (db', Inr resp)"
  shows "sr_is_new resp = is_new \<and>
         sr_status resp = (if is_new then ''new'' else ''updated'') \<and>
         those (map (from_orm e)
            (order_by (name_le (collate_le e)) (user_repositories (view db) uid))) =
           Some (sr_repositories resp) \<and>
         (\<exists>user. find (\<lambda>u. u_id u = uid) (users (view db)) = Some user \<and>
                 sr_username resp = u_username user)"
  using assms
  by (auto simp: build_response_def Let_def view_autobegin split: option.splits)

lemma commit_succeeds:
  assumes "list_all (update_ok (identity_map st)) (repositories (view db))"
    and "flush_inserts (utcnow_commit e) (repositories_id_seq db)
           (map (update_row (utcnow_commit e) (identity_map st)) (repositories (view db)))
           (pending st) = (seq, Inr rows)"
  shows "commit e uid st db =
     (db\<lparr>committed := (flush_user (utcnow_sync e) (utcnow_commit e) uid (view db))
                         \<lparr>repositories := rows\<rparr>,
         txn := None, repositories_id_seq := seq\<rparr>, Inr ())"
  using assms by (simp add: commit_def flush_updates_def Let_def)

lemma build_response_result:
  assumes "find (\<lambda>u. u_id u = uid) (users (view db)) = Some user"
    and "those (map (from_orm e)
           (order_by (name_le (collate_le e)) (user_repositories (view db) uid))) = Some rs"
  shows "build_response e uid is_new db =
     (autobegin db,
      Inr \<lparr>sr_username = u_username user,
           sr_status = (if is_new then ''new'' else ''updated''),
           sr_is_new = is_new, sr_repositories = rs\<rparr>)"
  using assms by (simp add: build_response_def Let_def view_autobegin)

section \<open>The call as a whole\<close>

lemma get_or_create_user_facts:
  assumes "get_or_create_user e db username = (db1, Inr (user, is_new))"
  shows "user \<in> set (users (view db1)) \<and> find_user (view db1) username = Some user \<and>
      repositories (view db1) = repositories (view db) \<and>
      (is_new \<longleftrightarrow> find_user (view db) username = None) \<and> u_username user = username"
proof (cases "find_user (view db) username")
  case None
  from get_or_create_user_new [OF assms None]
  have new: "is_new" "u_username user = username"
    and t: "txn db1 = Some ((view db)\<lparr>users := users (view db) @ [user]\<rparr>)"
    by simp_all
  from t have v: "view db1 = (view db)\<lparr>users := users (view db) @ [user]\<rparr>"
    by (simp add: view_def)
  from None have "find (\<lambda>u. u_username u = username) (users (view db) @ [user]) = Some user"
    using new(2) by (simp add: find_user_def find_append_None)
  with v new None show ?thesis
    by (simp add: find_user_def)
next
  case (Some u)
  from get_or_create_user_found [OF assms Some]
  have f: "user = u" "\<not> is_new" and t: "txn db1 = Some (view db)" by simp_all
  from t have v: "view db1 = view db" by (simp add: view_def)
  from Some have "u \<in> set (users (view db))" "u_username u = username"
    by (auto simp: find_user_def dest: find_Some_set)
  with v f Some show ?thesis
    by simp
qed

lemma get_or_create_user_member:
  assumes "get_or_create_user e db username = (db1, Inr (user, is_new))"
  shows "user \<in> set (users (view db1))" and "find_user (view db1) username = Some user"
    and "repositories (view db1) = repositories (view db)"
    and "is_new \<longleftrightarrow> find_user (view db) username = None"
    and "u_username user = username"
  using get_or_create_user_facts [OF assms] by simp_all

lemma upsert_unfold:
  "upsert_user_and_repos e db username repos_data =
     (case get_or_create_user e db username of
        (db1, Inl err) \<Rightarrow> (db1, Inl err)
      | (db1, Inr (user, is_new)) \<Rightarrow>
          (case commit e (u_id user)
                  (foldl (upsert_repo (view db1) (u_id user)) loop_init repos_data)
                  (db1\<lparr>txn := Some (bulk_delete (u_id user) (valid_ids repos_data) (view db1))\<rparr>) of
             (db3, Inl err) \<Rightarrow> (db3, Inl err)
           | (db3, Inr x) \<Rightarrow> build_response e (u_id user) is_new db3))"
  by (simp add: upsert_user_and_repos_def Let_def loop_github_repo_ids
      split: prod.splits sum.splits)

lemma upsert_store_error:
  assumes "upsert_user_and_repos e db username repos_data = (db', Inl err)"
  shows "err = ValidationError \<or> (err = SQLAlchemyError \<and> committed db' = committed db)"
proof (cases "get_or_create_user e db username")
  case (Pair db1 r)
  show ?thesis
  proof (cases r)
    case (Inl err1)
    with Pair assms have "db' = db1" "err = err1"
      by (simp_all add: upsert_unfold)
    with Pair Inl show ?thesis
      by (auto dest: get_or_create_user_Inl get_or_create_user_committed)
  next
    case (Inr ui)
    obtain user is_new where ui: "ui = (user, is_new)" by (cases ui)
    note g = Pair [unfolded Inr ui]
    let ?st = "foldl (upsert_repo (view db1) (u_id user)) loop_init repos_data"
    let ?db2 = "db1\<lparr>txn := Some (bulk_delete (u_id user) (valid_ids repos_data) (view db1))\<rparr>"
    obtain db3 c where c: "commit e (u_id user) ?st ?db2 = (db3, c)"
      by (cases "commit e (u_id user) ?st ?db2")
    show ?thesis
    proof (cases c)
      case (Inl err3)
      with c g assms have "db' = db3" "err = err3"
        by (simp_all add: upsert_unfold)
      moreover from c Inl have "committed db3 = committed ?db2 \<and> err3 = SQLAlchemyError"
        by (auto dest: commit_Inl)
      moreover have "committed ?db2 = committed db"
        using get_or_create_user_committed [OF g] by simp
      ultimately show ?thesis by simp
    next
      case (Inr x)
      with c g assms have b: "build_response e (u_id user) is_new db3 = (db', Inl err)"
        by (simp add: upsert_unfold)
      from commit_Inr [OF c [unfolded Inr]]
      have u: "users (committed db3) =
          users (flush_user (utcnow_sync e) (utcnow_commit e) (u_id user) (view ?db2))"
        and t: "txn db3 = None" by auto
      from t have v3: "view db3 = committed db3" by (simp add: view_def)
      have "map u_id (users (view db3)) = map u_id (users (view db1))"
        unfolding v3 u by simp
      moreover from get_or_create_user_member(1) [OF g]
      have "u_id user \<in> set (map u_id (users (view db1)))" by simp
      ultimately have "u_id user \<in> set (map u_id (users (view db3)))" by simp
      with b have "err = ValidationError" by (rule build_response_Inl)
      then show ?thesis by simp
    qed
  qed
qed

lemma upsert_commit_facts:
  assumes "upsert_user_and_repos e db username repos_data = (db', res)"
    and "res \<noteq> Inl SQLAlchemyError"
  shows "\<exists>db1 user is_new seq.
     get_or_create_user e db username = (db1, Inr (user, is_new)) \<and>
     list_all (update_ok (loaded (view db1) (u_id user) repos_data))
        (kept_rows (view db1) (u_id user) repos_data) \<and>
     flush_inserts (utcnow_commit e) (repositories_id_seq db1)
        (map (update_row (utcnow_commit e) (loaded (view db1) (u_id user) repos_data))
           (kept_rows (view db1) (u_id user) repos_data))
        (new_objects (view db1) (u_id user) repos_data) = (seq, Inr (repositories (committed db'))) \<and>
     users (committed db') =
       users (flush_user (utcnow_sync e) (utcnow_commit e) (u_id user) (view db1)) \<and>
     txn db' = Some (committed db') \<and>
     build_response e (u_id user) is_new
       (db'\<lparr>txn := None\<rparr>) = (db', res)"
proof (cases "get_or_create_user e db username")
  case (Pair db1 r)
  show ?thesis
  proof (cases r)
    case (Inl err1)
    with Pair assms(1) have "res = Inl err1"
      by (simp add: upsert_unfold)
    with Pair Inl assms(2) show ?thesis
      by (auto dest: get_or_create_user_Inl)
  next
    case (Inr ui)
    obtain user is_new where ui: "ui = (user, is_new)" by (cases ui)
    note g = Pair [unfolded Inr ui]
    let ?st = "foldl (upsert_repo (view db1) (u_id user)) loop_init repos_data"
    let ?db2 = "db1\<lparr>txn := Some (bulk_delete (u_id user) (valid_ids repos_data) (view db1))\<rparr>"
    obtain db3 c where c: "commit e (u_id user) ?st ?db2 = (db3, c)"
      by (cases "commit e (u_id user) ?st ?db2")
    show ?thesis
    proof (cases c)
      case (Inl err3)
      with c g assms(1) have "res = Inl err3"
        by (simp add: upsert_unfold)
      moreover from c Inl have "err3 = SQLAlchemyError"
        by (auto dest: commit_Inl)
      ultimately show ?thesis using assms(2) by simp
    next
      case (Inr x)
      with c g assms(1) have b: "build_response e (u_id user) is_new db3 = (db', res)"
        by (simp add: upsert_unfold)
      from commit_Inr [OF c [unfolded Inr]] obtain seq where
        ok: "list_all (update_ok (identity_map ?st)) (repositories (view ?db2))"
        and ins: "flush_inserts (utcnow_commit e) (repositories_id_seq ?db2)
            (map (update_row (utcnow_commit e) (identity_map ?st)) (repositories (view ?db2)))
            (pending ?st) = (seq, Inr (repositories (committed db3)))"
        and u: "users (committed db3) =
          users (flush_user (utcnow_sync e) (utcnow_commit e) (u_id user) (view ?db2))"
        and t: "txn db3 = None" by auto
      from t have v3: "view db3 = committed db3" by (simp add: view_def)
      from build_response_committed [OF b] v3
      have c': "committed db' = committed db3" and t': "txn db' = Some (committed db')"
        by simp_all
      have k: "repositories (view ?db2) = kept_rows (view db1) (u_id user) repos_data"
        by (simp add: kept_rows_def)
      have p: "pending ?st = new_objects (view db1) (u_id user) repos_data"
        by (simp add: loop_pending)
      have l: "identity_map ?st = loaded (view db1) (u_id user) repos_data"
        by (simp add: loaded_def)
      have d3: "db'\<lparr>txn := None\<rparr> = db3"
        using b t by (auto simp: build_response_def Let_def autobegin_def split: option.splits)
      have u': "users (committed db') =
          users (flush_user (utcnow_sync e) (utcnow_commit e) (u_id user) (view db1))"
        unfolding c' u by (simp add: flush_user_def)
      from g ok ins u' t' b show ?thesis
        unfolding k p l c' [symmetric] d3 by auto
    qed
  qed
qed

lemma get_or_create_user_existing:
  "find_user (view db) username = Some user \<Longrightarrow>
     get_or_create_user e db username = (autobegin db, Inr (user, False))"
  by (simp add: get_or_create_user_def Let_def view_autobegin)

lemma get_or_create_user_length:
  assumes "get_or_create_user e db username = (db1, Inr (user, is_new))" and "is_new"
  shows "length username \<le> 39"
  using assms
  by (auto simp: get_or_create_user_def insert_user_def Let_def
      split: option.splits prod.splits sum.splits if_splits)

lemma get_or_create_user_users:
  assumes "get_or_create_user e db username = (db1, Inr (user, is_new))"
  shows "users (view db1) = (if is_new then users (view db) @ [user] else users (view db))"
proof (cases "find_user (view db) username")
  case None
  from get_or_create_user_new [OF assms None] show ?thesis
    by (simp add: view_def)
next
  case (Some u)
  from get_or_create_user_found [OF assms Some] show ?thesis
    by (simp add: view_def)
qed

lemma find_user_None: "find_user d username = None \<longleftrightarrow> username \<notin> set (map u_username (users d))"
  by (auto simp: find_user_def find_None_set)

section \<open>The schema's constraints hold in every reachable state\<close>

lemma get_or_create_user_constraints:
  assumes g: "get_or_create_user e db username = (db1, Inr (user, is_new))"
    and c: "constraints_ok (view db)"
  shows "distinct (map u_id (users (view db1)))"
    and "distinct (map u_username (users (view db1)))"
    and "list_all (\<lambda>n. length n \<le> 39) (map u_username (users (view db1)))"
    and "set (map u_id (users (view db))) \<subseteq> set (map u_id (users (view db1)))"
    and "u_id user \<in> set (map u_id (users (view db1)))"
proof -
  note u = get_or_create_user_users [OF g]
  note m = get_or_create_user_member [OF g]
  show "u_id user \<in> set (map u_id (users (view db1)))" using m(1) by simp
  show "set (map u_id (users (view db))) \<subseteq> set (map u_id (users (view db1)))"
    unfolding u by auto
  show "distinct (map u_id (users (view db1)))"
  proof (cases is_new)
    case True
    with m(4) have "find_user (view db) username = None" by simp
    from get_or_create_user_new [OF g this] c True show ?thesis
      unfolding u by (simp add: constraints_ok_def)
  next
    case False
    with c show ?thesis unfolding u by (simp add: constraints_ok_def)
  qed
  show "distinct (map u_username (users (view db1)))"
  proof (cases is_new)
    case True
    with m(4) have "username \<notin> set (map u_username (users (view db)))"
      by (simp add: find_user_None)
    with c True m(5) show ?thesis
      unfolding u by (simp add: constraints_ok_def)
  next
    case False
    with c show ?thesis unfolding u by (simp add: constraints_ok_def)
  qed
  show "list_all (\<lambda>n. length n \<le> 39) (map u_username (users (view db1)))"
  proof (cases is_new)
    case True
    from get_or_create_user_length [OF g True] c True m(5) show ?thesis
      unfolding u by (simp add: constraints_ok_def)
  next
    case False
    with c show ?thesis unfolding u by (simp add: constraints_ok_def)
  qed
qed

lemma update_row_columns_ok:
  assumes "update_ok m row" and "repository_columns_ok (attrs_of_row row)"
  shows "repository_columns_ok (attrs_of_row (update_row t m row))"
  using assms by (auto simp: update_row_attrs update_ok_def split: option.splits)

lemma kept_rows_subset: "set (kept_rows v uid repos_data) \<subseteq> set (repositories v)"
  by (auto simp: kept_rows_def)

lemma upsert_repositories:
  assumes "upsert_user_and_repos e db username repos_data = (db', res)"
    and "res \<noteq> Inl SQLAlchemyError"
  shows "\<exists>db1 user is_new news.
     get_or_create_user e db username = (db1, Inr (user, is_new)) \<and>
     list_all (update_ok (loaded (view db1) (u_id user) repos_data))
        (kept_rows (view db1) (u_id user) repos_data) \<and>
     repositories (committed db') =
       map (update_row (utcnow_commit e) (loaded (view db1) (u_id user) repos_data))
         (kept_rows (view db1) (u_id user) repos_data) @ news \<and>
     map repo_key news = map new_key (new_objects (view db1) (u_id user) repos_data) \<and>
     map attrs_of_row news = map n_attrs (new_objects (view db1) (u_id user) repos_data) \<and>
     users (committed db') =
       users (flush_user (utcnow_sync e) (utcnow_commit e) (u_id user) (view db1))"
proof -
  from upsert_commit_facts [OF assms] obtain db1 user is_new seq where
    g: "get_or_create_user e db username = (db1, Inr (user, is_new))"
    and ok: "list_all (update_ok (loaded (view db1) (u_id user) repos_data))
        (kept_rows (view db1) (u_id user) repos_data)"
    and ins: "flush_inserts (utcnow_commit e) (repositories_id_seq db1)
        (map (update_row (utcnow_commit e) (loaded (view db1) (u_id user) repos_data))
           (kept_rows (view db1) (u_id user) repos_data))
        (new_objects (view db1) (u_id user) repos_data) = (seq, Inr (repositories (committed db')))"
    and u: "users (committed db') =
       users (flush_user (utcnow_sync e) (utcnow_commit e) (u_id user) (view db1))"
    by blast
  from flush_inserts_Inr [OF ins] g ok u show ?thesis by blast
qed

lemma upsert_constraints_ok:
  assumes run: "upsert_user_and_repos e db username repos_data = (db', res)"
    and c: "constraints_ok (view db)" and c0: "constraints_ok (committed db)"
  shows "constraints_ok (committed db')"
proof (cases "res = Inl SQLAlchemyError")
  case True
  with run have "committed db' = committed db"
    by (auto dest: upsert_store_error)
  with c0 show ?thesis by simp
next
  case False
  from upsert_commit_facts [OF run False] obtain db1 user is_new seq where
    g: "get_or_create_user e db username = (db1, Inr (user, is_new))"
    and ok: "list_all (update_ok (loaded (view db1) (u_id user) repos_data))
        (kept_rows (view db1) (u_id user) repos_data)"
    and ins: "flush_inserts (utcnow_commit e) (repositories_id_seq db1)
        (map (update_row (utcnow_commit e) (loaded (view db1) (u_id user) repos_data))
           (kept_rows (view db1) (u_id user) repos_data))
        (new_objects (view db1) (u_id user) repos_data) = (seq, Inr (repositories (committed db')))"
    and u: "users (committed db') =
       users (flush_user (utcnow_sync e) (utcnow_commit e) (u_id user) (view db1))"
    by blast
  let ?m = "loaded (view db1) (u_id user) repos_data"
  let ?kept = "kept_rows (view db1) (u_id user) repos_data"
  let ?upd = "map (update_row (utcnow_commit e) ?m) ?kept"
  let ?new = "new_objects (view db1) (u_id user) repos_data"
  note gc = get_or_create_user_constraints [OF g c]
  note gm = get_or_create_user_member [OF g]
  have ids: "map u_id (users (committed db')) = map u_id (users (view db1))"
    and names: "map u_username (users (committed db')) = map u_username (users (view db1))"
    unfolding u by simp_all
  from flush_inserts_Inr [OF ins] obtain news where
    rows: "repositories (committed db') = ?upd @ news"
    and nk: "map repo_key news = map new_key ?new"
    and na: "map attrs_of_row news = map n_attrs ?new" by blast
  have kept_id: "map r_id ?upd = map r_id ?kept" and kept_key: "map repo_key ?upd = map repo_key ?kept"
    by simp_all
  from c have dv: "distinct (map r_id (repositories (view db1)))"
    "distinct (map repo_key (repositories (view db1)))"
    by (simp_all add: gm(3) constraints_ok_def)
  have k1: "distinct (map r_id ?kept)" and k2: "distinct (map repo_key ?kept)"
    unfolding kept_rows_def using dv by (simp_all add: distinct_map_filter)
  from k1 have "distinct (map r_id ?upd)" unfolding kept_id .
  then have d1: "distinct (map r_id (repositories (committed db')))"
    by (rule flush_inserts_distinct_id [OF ins])
  from k2 have "distinct (map repo_key ?upd)" unfolding kept_key .
  then have d2: "distinct (map repo_key (repositories (committed db')))"
    by (rule flush_inserts_distinct_key [OF ins])
  have cols_kept: "list_all repository_columns_ok (map attrs_of_row ?upd)"
  proof -
    have "repository_columns_ok (attrs_of_row (update_row (utcnow_commit e) ?m row))"
      if "row \<in> set ?kept" for row
    proof -
      from that ok have "update_ok ?m row" by (simp add: list_all_iff)
      moreover from that have "row \<in> set (repositories (view db))"
        using kept_rows_subset [of "view db1" "u_id user" repos_data] by (auto simp: gm(3))
      with c have "repository_columns_ok (attrs_of_row row)"
        by (simp add: constraints_ok_def list_all_iff)
      ultimately show ?thesis by (rule update_row_columns_ok)
    qed
    then show ?thesis by (simp add: list_all_iff)
  qed
  have cols_new: "list_all repository_columns_ok (map attrs_of_row news)"
    unfolding na using flush_inserts_columns_ok [OF ins] by (simp add: list_all_iff)
  have fk_kept: "set (map r_user_id ?upd) \<subseteq> set (map u_id (users (view db1)))"
  proof -
    have "set (map r_user_id ?upd) \<subseteq> set (map r_user_id (repositories (view db)))"
      using kept_rows_subset [of "view db1" "u_id user" repos_data] by (auto simp: gm(3))
    also have "\<dots> \<subseteq> set (map u_id (users (view db)))"
      using c by (simp add: constraints_ok_def)
    also note gc(4)
    finally show ?thesis .
  qed
  have fk_new: "set (map r_user_id news) \<subseteq> set (map u_id (users (view db1)))"
  proof -
    have "map r_user_id news = map fst (map repo_key news)"
      by (simp add: repo_key_def)
    also have "\<dots> = map n_user_id ?new"
      unfolding nk by (simp add: new_key_def)
    finally have "set (map r_user_id news) = set (map n_user_id ?new)" by simp
    also have "\<dots> \<subseteq> {u_id user}"
      by (auto dest: new_objects_keys)
    finally show ?thesis using gc(5) by auto
  qed
  show ?thesis
    unfolding constraints_ok_def ids names
    using gc(1,2,3) d1 d2 cols_kept cols_new fk_kept fk_new
    by (simp add: rows)
qed

lemma reachable_invariant: "reachable srv \<Longrightarrow> txn srv = None \<and> constraints_ok (committed srv)"
proof (induction rule: reachable.induct)
  case init
  show ?case by (simp add: init_session_def constraints_ok_def)
next
  case (sync srv e username repos_data)
  let ?run = "upsert_user_and_repos e (SessionLocal srv) username repos_data"
  have "constraints_ok (committed (fst ?run))"
  proof (rule upsert_constraints_ok)
    show "?run = (fst ?run, snd ?run)" by simp
    show "constraints_ok (view (SessionLocal srv))" "constraints_ok (committed (SessionLocal srv))"
      using sync.IH by (simp_all add: SessionLocal_def)
  qed
  then show ?case by (simp add: close_def)
qed

section \<open>The endpoint and the refresh job stay within the reachable states\<close>

lemma reachable_new_session: "reachable srv \<Longrightarrow> SessionLocal srv = srv"
  by (auto simp: SessionLocal_def dest: reachable_invariant)

lemma sync_github_user_reachable:
  assumes "reachable srv"
  shows "reachable (fst (sync_github_user e client_get srv username))"
proof (cases "fetch_github_repos client_get username")
  case (Inl err)
  then have "fst (sync_github_user e client_get srv username) = close (SessionLocal srv)"
    by (simp add: sync_github_user_def Let_def)
  also have "\<dots> = srv"
    using reachable_new_session [OF assms] by (simp add: close_def SessionLocal_def)
  finally show ?thesis using assms by simp
next
  case (Inr repos_data)
  then have "fst (sync_github_user e client_get srv username) =
      close (fst (upsert_user_and_repos e (SessionLocal srv) username repos_data))"
    by (simp add: sync_github_user_def Let_def split: prod.splits)
  with reachable.sync [OF assms] show ?thesis by simp
qed

lemma refresh_user_reachable:
  assumes "reachable srv"
  shows "reachable (close (fst (refresh_user e client_get (SessionLocal srv) username)))"
proof (cases "fetch_github_repos client_get username")
  case (Inl err)
  then have "fst (refresh_user e client_get (SessionLocal srv) username) = SessionLocal srv"
    by (cases err) (simp_all add: refresh_user_def)
  then have "close (fst (refresh_user e client_get (SessionLocal srv) username)) = srv"
    using reachable_new_session [OF assms] by (simp add: close_def SessionLocal_def)
  with assms show ?thesis by simp
next
  case (Inr repos_data)
  then have "fst (refresh_user e client_get (SessionLocal srv) username) =
      fst (upsert_user_and_repos e (SessionLocal srv) username repos_data)"
    by (simp add: refresh_user_def split: prod.splits sum.splits exn.splits)
  with reachable.sync [OF assms] show ?thesis by simp
qed

lemma refresh_loop_reachable:
  "reachable srv \<Longrightarrow> reachable (fst (refresh_loop e client_get srv usernames))"
proof (induction usernames arbitrary: srv)
  case Nil
  then show ?case by simp
next
  case (Cons username usernames)
  let ?r = "refresh_user (e username) client_get (SessionLocal srv) username"
  from refresh_user_reachable [OF Cons.prems] have r: "reachable (close (fst ?r))" .
  obtain db1 x where rx: "?r = (db1, x)" by (cases ?r)
  with r have r1: "reachable (close db1)" by simp
  show ?case
  proof (cases x)
    case (Inl err)
    with rx have "fst (refresh_loop e client_get srv (username # usernames)) = close db1"
      by simp
    with r1 show ?thesis by simp
  next
    case (Inr out)
    with rx have "fst (refresh_loop e client_get srv (username # usernames)) =
        fst (refresh_loop e client_get (close db1) usernames)"
      by (simp split: prod.splits)
    with Cons.IH [OF r1] show ?thesis by simp
  qed
qed

lemma refresh_all_users_reachable:
  assumes "reachable srv"
  shows "reachable (fst (refresh_all_users heap_position e client_get srv))"
proof -
  have "close (autobegin (SessionLocal srv)) = srv"
    using reachable_new_session [OF assms] reachable_invariant [OF assms]
    by (simp add: close_def autobegin_def SessionLocal_def)
  with refresh_loop_reachable [OF assms] show ?thesis
    by (simp add: refresh_all_users_def Let_def)
qed

section \<open>The user's rows after a call\<close>

lemma find_map_same:
  "(\<And>x. P (f x) = P x) \<Longrightarrow> find P (map f xs) = map_option f (find P xs)"
  by (induction xs) auto

lemma user_repositories_ids:
  "set (map r_github_id (user_repositories d uid)) =
     {g. (uid, g) \<in> set (map repo_key (repositories d))}"
  by (auto simp: user_repositories_def repo_key_def)

lemma kept_rows_keys:
  "(uid, g) \<in> set (map repo_key (kept_rows v uid repos_data)) \<longleftrightarrow>
     (uid, g) \<in> set (map repo_key (repositories v)) \<and> g \<in> set (valid_ids repos_data)"
  by (auto simp: kept_rows_def repo_key_def)

lemma kept_rows_other_keys:
  "uid' \<noteq> uid \<Longrightarrow>
     (uid', g) \<in> set (map repo_key (kept_rows v uid repos_data)) \<longleftrightarrow>
     (uid', g) \<in> set (map repo_key (repositories v))"
  by (auto simp: kept_rows_def repo_key_def)

lemma new_objects_key_iff:
  "(uid', g) \<in> set (map new_key (new_objects v uid repos_data)) \<longleftrightarrow>
     uid' = uid \<and> g \<in> set (valid_ids repos_data) \<and> find_repository v uid g = None"
proof
  assume "(uid', g) \<in> set (map new_key (new_objects v uid repos_data))"
  then obtain n where "n \<in> set (new_objects v uid repos_data)" "new_key n = (uid', g)"
    by auto
  with new_objects_keys [of n v uid repos_data]
  show "uid' = uid \<and> g \<in> set (valid_ids repos_data) \<and> find_repository v uid g = None"
    by (auto simp: new_key_def)
next
  assume a: "uid' = uid \<and> g \<in> set (valid_ids repos_data) \<and> find_repository v uid g = None"
  then have "g \<in> set (map n_github_id (new_objects v uid repos_data))"
    using new_objects_complete [of g repos_data v uid] by blast
  then obtain n where n: "n \<in> set (new_objects v uid repos_data)" "n_github_id n = g"
    by auto
  with new_objects_keys [of n v uid repos_data] have "new_key n = (uid, g)"
    by (simp add: new_key_def)
  with n a show "(uid', g) \<in> set (map new_key (new_objects v uid repos_data))"
    by force
qed

lemma reconciled_keys:
  assumes "rows = map (update_row t m) (kept_rows v uid repos_data) @ news"
    and "map repo_key news = map new_key (new_objects v uid repos_data)"
  shows "(uid, g) \<in> set (map repo_key rows) \<longleftrightarrow> g \<in> set (valid_ids repos_data)"
proof -
  have k: "map repo_key (map (update_row t m) (kept_rows v uid repos_data)) =
      map repo_key (kept_rows v uid repos_data)"
    by simp
  have "set (map repo_key rows) =
      set (map repo_key (map (update_row t m) (kept_rows v uid repos_data))) \<union>
      set (map repo_key news)"
    unfolding assms(1) by (simp only: map_append set_append)
  then have "set (map repo_key rows) =
      set (map repo_key (kept_rows v uid repos_data)) \<union>
      set (map new_key (new_objects v uid repos_data))"
    unfolding k assms(2) .
  then show ?thesis
    using kept_rows_keys [of uid g v repos_data] new_objects_key_iff [of uid g v uid repos_data]
      find_repository_None [of v uid g]
    by blast
qed

lemma flush_user_find:
  assumes "find_user d username = Some user"
  shows "\<exists>user'. find_user (flush_user ts t (u_id user) d) username = Some user' \<and>
           u_id user' = u_id user \<and> u_username user' = u_username user \<and>
           u_last_synced_at user' = Some ts"
proof -
  let ?f = "\<lambda>u. if u_id u = u_id user \<and> u_last_synced_at u \<noteq> Some ts
                 then u\<lparr>u_last_synced_at := Some ts, u_updated_at := t\<rparr> else u"
  have "find (\<lambda>u. u_username u = username) (map ?f (users d)) =
      map_option ?f (find (\<lambda>u. u_username u = username) (users d))"
    by (rule find_map_same) simp
  with assms have "find_user (flush_user ts t (u_id user) d) username = Some (?f user)"
    by (simp add: find_user_def flush_user_def)
  then show ?thesis by auto
qed

lemma upsert_user_row:
  assumes "upsert_user_and_repos e db username repos_data = (db', res)"
    and "res \<noteq> Inl SQLAlchemyError"
    and "get_or_create_user e db username = (db1, Inr (user, is_new))"
  shows "\<exists>user'. find_user (committed db') username = Some user' \<and>
           u_id user' = u_id user \<and> u_last_synced_at user' = Some (utcnow_sync e)"
proof -
  from upsert_commit_facts [OF assms(1,2)] assms(3)
  have u: "users (committed db') =
       users (flush_user (utcnow_sync e) (utcnow_commit e) (u_id user) (view db1))"
    by auto
  from get_or_create_user_member(2) [OF assms(3)]
  have "find_user (view db1) username = Some user" .
  from flush_user_find [OF this, of "utcnow_sync e" "utcnow_commit e"] u
  show ?thesis by (auto simp: find_user_def)
qed

lemma user_repositories_cong:
  "repositories d = repositories d' \<Longrightarrow> user_repositories d uid = user_repositories d' uid"
  by (simp add: user_repositories_def)

lemma is_new_status:
  assumes "txn db = None"
    and "upsert_user_and_repos e db username repos_data = (db', Inr resp)"
  shows "sr_status resp = (if find_user (committed db) username = None then ''new'' else ''updated'')"
proof -
  have ok: "Inr resp \<noteq> (Inl SQLAlchemyError :: exn + user_sync_response)" by simp
  from upsert_commit_facts [OF assms(2) ok] obtain db1 user is_new where
    g: "get_or_create_user e db username = (db1, Inr (user, is_new))"
    and b: "build_response e (u_id user) is_new (db'\<lparr>txn := None\<rparr>) = (db', Inr resp)"
    by blast
  from build_response_Inr [OF b]
  have "sr_status resp = (if is_new then ''new'' else ''updated'')" by simp
  moreover from get_or_create_user_member(4) [OF g] assms(1)
  have "is_new \<longleftrightarrow> find_user (committed db) username = None"
    by (simp add: view_def)
  ultimately show ?thesis by simp
qed

section \<open>The attributes a call leaves in the user's rows\<close>

lemma distinct_map_eq:
  "distinct (map f xs) \<Longrightarrow> x \<in> set xs \<Longrightarrow> y \<in> set xs \<Longrightarrow> f x = f y \<Longrightarrow> x = y"
  by (auto simp: distinct_map dest: inj_onD)

lemma map_eq_elem:
  "map f xs = map g ys \<Longrightarrow> map f' xs = map g' ys \<Longrightarrow> x \<in> set xs \<Longrightarrow>
     \<exists>y \<in> set ys. f x = g y \<and> f' x = g' y"
proof (induction xs arbitrary: ys)
  case Nil
  then show ?case by simp
next
  case (Cons a xs)
  then show ?case by (cases ys) auto
qed

lemma find_repository_key:
  assumes "distinct (map repo_key (repositories v))" and "row \<in> set (repositories v)"
  shows "find_repository v (r_user_id row) (r_github_id row) = Some row"
proof (cases "find_repository v (r_user_id row) (r_github_id row)")
  case None
  with assms(2) show ?thesis
    by (auto simp: find_repository_None repo_key_def)
next
  case (Some row2)
  from find_repository_Some [OF Some] have "row2 \<in> set (repositories v)"
    "repo_key row2 = repo_key row" by (simp_all add: repo_key_def)
  with assms have "row2 = row" by (auto dest: distinct_map_eq)
  with Some show ?thesis by simp
qed

lemma hits_iff:
  assumes "distinct (map r_id (repositories v))" and "distinct (map repo_key (repositories v))"
    and "row \<in> set (repositories v)" and "r_user_id row = uid"
  shows "hits v uid (r_id row) repo \<longleftrightarrow> d_id repo = Some (r_github_id row)"
proof
  assume "hits v uid (r_id row) repo"
  from hits_row [OF this] obtain g row2 where
    h: "d_id repo = Some g" "find_repository v uid g = Some row2" "r_id row2 = r_id row"
    by blast
  from find_repository_Some [OF h(2)] have r2: "row2 \<in> set (repositories v)" "r_github_id row2 = g"
    by simp_all
  from assms(1) r2(1) assms(3) h(3) have "row2 = row" by (rule distinct_map_eq)
  with h(1) r2(2) show "d_id repo = Some (r_github_id row)" by simp
next
  assume "d_id repo = Some (r_github_id row)"
  moreover from find_repository_key [OF assms(2,3)] assms(4)
  have "find_repository v uid (r_github_id row) = Some row" by simp
  ultimately show "hits v uid (r_id row) repo" by (simp add: hits_def)
qed

lemma loaded_attrs:
  assumes "distinct (map r_id (repositories v))" and "distinct (map repo_key (repositories v))"
    and "row \<in> set (repositories v)" and "r_user_id row = uid"
  shows "map_option attrs_of_row (loaded v uid repos_data (r_id row)) =
           map_option attrs_of_dict (last_record (r_github_id row) repos_data)"
proof -
  have "find (hits v uid (r_id row)) (rev repos_data) =
      find (\<lambda>repo. d_id repo = Some (r_github_id row)) (rev repos_data)"
    by (rule find_cong) (simp_all add: hits_iff [OF assms])
  then show ?thesis
    using loop_identity_map [of v uid loop_init repos_data "r_id row"]
    by (simp add: loaded_def last_record_def split: option.splits)
qed

lemma loaded_other_user:
  assumes "distinct (map r_id (repositories v))"
    and "row \<in> set (repositories v)" and "r_user_id row \<noteq> uid"
  shows "loaded v uid repos_data (r_id row) = None"
proof (cases "loaded v uid repos_data (r_id row)")
  case None
  then show ?thesis .
next
  case (Some obj)
  from loop_identity_map_row [OF Some [unfolded loaded_def]] obtain row2 where
    "row2 \<in> set (repositories v)" "r_id row2 = r_id row" "r_user_id row2 = uid" by blast
  with assms distinct_map_eq [of r_id "repositories v" row2 row] show ?thesis by auto
qed

lemma last_record_Some:
  "g \<in> set (valid_ids repos_data) \<Longrightarrow>
     \<exists>repo. last_record g repos_data = Some repo \<and> d_id repo = Some g \<and> repo \<in> set repos_data"
  unfolding last_record_def valid_ids_set
  by (cases "find (\<lambda>repo. d_id repo = Some g) (rev repos_data)")
     (auto simp: find_None_set dest: find_Some_set)

lemma last_record_snoc:
  "last_record g (repos_data @ [repo]) =
     (if d_id repo = Some g then Some repo else last_record g repos_data)"
  by (simp add: last_record_def)

lemma new_objects_snoc:
  "new_objects v uid (repos_data @ [repo]) =
     new_objects v uid repos_data @ new_objects v uid [repo]"
  by (simp add: new_objects_def)

lemma new_objects_last_record:
  assumes "distinct (map new_key (new_objects v uid repos_data))"
    and "n \<in> set (new_objects v uid repos_data)"
  shows "\<exists>repo. last_record (n_github_id n) repos_data = Some repo \<and>
           n_attrs n = attrs_of_dict repo"
  using assms
proof (induction repos_data rule: rev_induct)
  case Nil
  then show ?case by (simp add: new_objects_def)
next
  case (snoc repo repos_data)
  from snoc.prems(1) have d: "distinct (map new_key (new_objects v uid repos_data))"
    and disj: "set (map new_key (new_objects v uid repos_data)) \<inter>
               set (map new_key (new_objects v uid [repo])) = {}"
    by (simp_all add: new_objects_snoc)
  show ?case
  proof (cases "n \<in> set (new_objects v uid [repo])")
    case True
    then have "d_id repo = Some (n_github_id n)" "n_attrs n = attrs_of_dict repo"
      by (auto simp: new_objects_def split: option.splits)
    then show ?thesis by (simp add: last_record_snoc)
  next
    case False
    with snoc.prems(2) have old: "n \<in> set (new_objects v uid repos_data)"
      by (simp add: new_objects_snoc)
    from snoc.IH [OF d old] obtain r where
      r: "last_record (n_github_id n) repos_data = Some r" "n_attrs n = attrs_of_dict r"
      by blast
    have "d_id repo \<noteq> Some (n_github_id n)"
    proof
      assume same: "d_id repo = Some (n_github_id n)"
      from new_objects_keys [OF old] have k: "n_user_id n = uid"
        "find_repository v uid (n_github_id n) = None" by simp_all
      with same have "new_key n \<in> set (map new_key (new_objects v uid [repo]))"
        by (simp add: new_objects_def new_key_def)
      moreover from old have "new_key n \<in> set (map new_key (new_objects v uid repos_data))"
        by simp
      ultimately show False using disj by blast
    qed
    with r show ?thesis by (simp add: last_record_snoc)
  qed
qed

lemma flush_inserts_new_keys:
  "flush_inserts t seq rows ns = (seq', Inr rows') \<Longrightarrow>
     distinct (map new_key ns) \<and> set (map new_key ns) \<inter> set (map repo_key rows) = {}"
proof (induction ns arbitrary: seq rows)
  case Nil
  then show ?case by simp
next
  case (Cons n ns)
  from Cons.prems have ok: "flush_inserts t (Suc seq) (rows @ [new_row t seq n]) ns = (seq', Inr rows')"
    and fresh: "new_key n \<notin> set (map repo_key rows)"
    by (simp_all add: new_key_def split: if_splits)
  from Cons.IH [OF ok] have "distinct (map new_key ns)"
    "set (map new_key ns) \<inter> set (map repo_key (rows @ [new_row t seq n])) = {}"
    by simp_all
  with fresh show ?case by auto
qed

lemma upsert_attrs:
  assumes run: "upsert_user_and_repos e db username repos_data = (db', res)"
    and ok: "res \<noteq> Inl SQLAlchemyError"
    and c: "constraints_ok (view db)"
    and g: "get_or_create_user e db username = (db1, Inr (user, is_new))"
    and row: "row \<in> set (user_repositories (committed db') (u_id user))"
  shows "\<exists>repo. last_record (r_github_id row) repos_data = Some repo \<and>
           attrs_of_row row = attrs_of_dict repo"
proof -
  let ?v = "view db1" and ?uid = "u_id user"
  let ?m = "loaded ?v ?uid repos_data" and ?kept = "kept_rows ?v ?uid repos_data"
  let ?new = "new_objects ?v ?uid repos_data"
  from upsert_commit_facts [OF run ok] g obtain seq where
    ins: "flush_inserts (utcnow_commit e) (repositories_id_seq db1)
        (map (update_row (utcnow_commit e) ?m) ?kept) ?new = (seq, Inr (repositories (committed db')))"
    by auto
  from flush_inserts_Inr [OF ins] obtain news where
    rows: "repositories (committed db') = map (update_row (utcnow_commit e) ?m) ?kept @ news"
    and nk: "map repo_key news = map new_key ?new"
    and na: "map attrs_of_row news = map n_attrs ?new" by blast
  from c get_or_create_user_member(3) [OF g]
  have d: "distinct (map r_id (repositories ?v))" "distinct (map repo_key (repositories ?v))"
    by (simp_all add: constraints_ok_def)
  from row have mem: "row \<in> set (repositories (committed db'))" and own: "r_user_id row = ?uid"
    by (simp_all add: user_repositories_def)
  from mem rows consider
    (kept) row0 where "row0 \<in> set ?kept" "row = update_row (utcnow_commit e) ?m row0"
    | (new) "row \<in> set news"
    by auto
  then show ?thesis
  proof cases
    case kept
    from kept(1) have r0: "row0 \<in> set (repositories ?v)" using kept_rows_subset by blast
    from kept(2) own have u0: "r_user_id row0 = ?uid" by simp
    with kept(1) have "r_github_id row0 \<in> set (valid_ids repos_data)"
      by (auto simp: kept_rows_def)
    from last_record_Some [OF this] obtain repo where
      l: "last_record (r_github_id row0) repos_data = Some repo" by blast
    with loaded_attrs [OF d r0 u0, of repos_data]
    have "map_option attrs_of_row (?m (r_id row0)) = Some (attrs_of_dict repo)" by simp
    then have "attrs_of_row row = attrs_of_dict repo"
      unfolding kept(2) by (auto simp: update_row_attrs)
    with l kept(2) show ?thesis by simp
  next
    case new
    from map_eq_elem [OF nk na new] obtain n where
      n: "n \<in> set ?new" "repo_key row = new_key n" "attrs_of_row row = n_attrs n" by blast
    from flush_inserts_new_keys [OF ins] have "distinct (map new_key ?new)" by simp
    from new_objects_last_record [OF this n(1)] obtain repo where
      "last_record (n_github_id n) repos_data = Some repo" "n_attrs n = attrs_of_dict repo"
      by blast
    moreover from n(2) have "r_github_id row = n_github_id n"
      by (simp add: repo_key_def new_key_def)
    ultimately show ?thesis using n(3) by simp
  qed
qed

lemma filter_unique:
  "distinct (map f xs) \<Longrightarrow> x \<in> set xs \<Longrightarrow> filter (\<lambda>y. f y = f x) xs = [x]"
proof (induction xs)
  case Nil
  then show ?case by simp
next
  case (Cons a xs)
  show ?case
  proof (cases "a = x")
    case True
    with Cons.prems(1) have "f x \<notin> f ` set xs"
      by simp
    then have "\<forall>y \<in> set xs. f y \<noteq> f x"
      by (metis imageI)
    then have "filter (\<lambda>y. f y = f x) xs = []"
      by (simp add: filter_empty_conv)
    with True show ?thesis by simp
  next
    case False
    with Cons.prems have "x \<in> set xs" "f a \<noteq> f x" "distinct (map f xs)" by auto
    with Cons.IH show ?thesis by simp
  qed
qed

lemma user_repositories_filter:
  "filter (\<lambda>r. r_github_id r = g) (user_repositories d uid) =
     filter (\<lambda>r. repo_key r = (uid, g)) (repositories d)"
  by (auto simp: user_repositories_def repo_key_def intro: filter_cong)

lemma upsert_row_of_record:
  assumes run: "upsert_user_and_repos e db username repos_data = (db', res)"
    and ok: "res \<noteq> Inl SQLAlchemyError"
    and c: "constraints_ok (view db)" and c0: "constraints_ok (committed db)"
    and l: "last_record g repos_data = Some repo"
  shows "\<exists>user row. find_user (committed db') username = Some user \<and>
           filter (\<lambda>r. r_github_id r = g) (user_repositories (committed db') (u_id user)) = [row] \<and>
           attrs_of_row row = attrs_of_dict repo"
proof -
  from upsert_repositories [OF run ok] obtain db1 user is_new news where
    g: "get_or_create_user e db username = (db1, Inr (user, is_new))"
    and rows: "repositories (committed db') =
       map (update_row (utcnow_commit e) (loaded (view db1) (u_id user) repos_data))
         (kept_rows (view db1) (u_id user) repos_data) @ news"
    and nk: "map repo_key news = map new_key (new_objects (view db1) (u_id user) repos_data)"
    by blast
  from upsert_user_row [OF run ok g] obtain user' where
    u: "find_user (committed db') username = Some user'" "u_id user' = u_id user"
    by blast
  from l have "repo \<in> set repos_data" "d_id repo = Some g"
    by (auto simp: last_record_def dest: find_Some_set)
  then have "g \<in> set (valid_ids repos_data)" by (auto simp: valid_ids_set)
  with reconciled_keys [OF rows nk] have "(u_id user, g) \<in> set (map repo_key (repositories (committed db')))"
    by simp
  then obtain row where row: "row \<in> set (repositories (committed db'))"
    "repo_key row = (u_id user, g)" by auto
  from upsert_constraints_ok [OF run c c0]
  have "distinct (map repo_key (repositories (committed db')))"
    by (simp add: constraints_ok_def)
  from filter_unique [OF this row(1)] row(2)
  have f: "filter (\<lambda>r. r_github_id r = g) (user_repositories (committed db') (u_id user)) = [row]"
    by (simp add: user_repositories_filter)
  from row have mem: "row \<in> set (user_repositories (committed db') (u_id user))"
    and gid: "r_github_id row = g"
    by (simp_all add: user_repositories_def repo_key_def)
  from upsert_attrs [OF run ok c g mem] l gid have "attrs_of_row row = attrs_of_dict repo"
    by auto
  with u f show ?thesis by auto
qed

section \<open>Example runs\<close>

text \<open>
  The example runs are evaluated by rewriting with the definitions of the model.
\<close>

lemmas model_defs =
  upsert_user_and_repos_def get_or_create_user_def autobegin_def view_def close_def rollback_def
  SessionLocal_def find_user_def find_repository_def insert_user_def loop_init_def
  upsert_repo_def bulk_delete_def flush_user_def update_row_def update_ok_def
  flush_updates_def new_row_def repo_key_def commit_def name_le_def order_by_def
  from_orm_def user_repositories_def build_response_def varchar_ok_def
  int4_ok_def values_fit_def
  repository_columns_ok_def attrs_of_row_def attrs_of_dict_def set_attrs_def Let_def

lemmas example_defs =
  example_env_def later_env_def example_repo_def example_base_def alice_repos_def
  init_session_def

lemma first_run_result: "snd first_run = Inr alice_response"
  unfolding first_run_def alice_response_def
  by (simp add: model_defs example_defs)

lemma first_run_eq:
  "upsert_user_and_repos example_env (SessionLocal init_session) ''alice'' alice_repos =
     (fst first_run, Inr alice_response)"
  unfolding first_run_def [symmetric] first_run_result [symmetric] by simp

lemma alice_synced_first_run: "alice_synced = close (fst first_run)"
  by (simp add: alice_synced_def first_run_def)

lemma reachable_alice_synced: "reachable alice_synced"
  unfolding alice_synced_def by (rule reachable.sync [OF reachable.init])

lemma alice_synced_eq:
  "alice_synced =
     \<lparr>committed =
        \<lparr>users = [\<lparr>u_id = 1, u_username = ''alice'', u_created_at = 10, u_updated_at = 12,
                    u_last_synced_at = Some 11\<rparr>],
         repositories =
           [\<lparr>r_id = 1, r_github_id = 1, r_name = Some ''zeta'',
             r_html_url = Some ''https://github.com/example/zeta'', r_description = None,
             r_language = Some ''Python'', r_user_id = 1, r_created_at = 12, r_updated_at = 12\<rparr>,
            \<lparr>r_id = 2, r_github_id = 2, r_name = Some ''alpha'',
             r_html_url = Some ''https://github.com/example/alpha'', r_description = None,
             r_language = Some ''Python'', r_user_id = 1, r_created_at = 12, r_updated_at = 12\<rparr>,
            \<lparr>r_id = 3, r_github_id = 3, r_name = Some ''mid'',
             r_html_url = Some ''https://github.com/example/mid'', r_description = None,
             r_language = Some ''Python'', r_user_id = 1, r_created_at = 12, r_updated_at = 12\<rparr>]\<rparr>,
      txn = None, users_id_seq = 2, repositories_id_seq = 4\<rparr>"
  by (simp add: alice_synced_def model_defs example_defs)

lemma prune_run_eq:
  "prune_run =
     (\<lparr>committed =
        \<lparr>users = [\<lparr>u_id = 1, u_username = ''alice'', u_created_at = 10, u_updated_at = 22,
                    u_last_synced_at = Some 21\<rparr>],
         repositories =
           [\<lparr>r_id = 1, r_github_id = 1, r_name = Some ''zeta'',
             r_html_url = Some ''https://github.com/example/zeta'', r_description = None,
             r_language = Some ''Python'', r_user_id = 1, r_created_at = 12, r_updated_at = 12\<rparr>,
            \<lparr>r_id = 2, r_github_id = 2, r_name = Some ''alpha'',
             r_html_url = Some ''https://github.com/example/alpha'', r_description = None,
             r_language = Some ''Python'', r_user_id = 1, r_created_at = 12, r_updated_at = 12\<rparr>]\<rparr>,
      txn = Some \<lparr>users = [\<lparr>u_id = 1, u_username = ''alice'', u_created_at = 10, u_updated_at = 22,
                    u_last_synced_at = Some 21\<rparr>],
         repositories =
           [\<lparr>r_id = 1, r_github_id = 1, r_name = Some ''zeta'',
             r_html_url = Some ''https://github.com/example/zeta'', r_description = None,
             r_language = Some ''Python'', r_user_id = 1, r_created_at = 12, r_updated_at = 12\<rparr>,
            \<lparr>r_id = 2, r_github_id = 2, r_name = Some ''alpha'',
             r_html_url = Some ''https://github.com/example/alpha'', r_description = None,
             r_language = Some ''Python'', r_user_id = 1, r_created_at = 12, r_updated_at = 12\<rparr>]\<rparr>,
      users_id_seq = 2, repositories_id_seq = 4\<rparr>,
      Inr \<lparr>sr_username = ''alice'', sr_status = ''updated'', sr_is_new = False,
           sr_repositories = [example_base ''alpha'', example_base ''zeta'']\<rparr>)"
  unfolding prune_run_def alice_synced_eq
  by (simp add: model_defs example_defs)

lemma rename_run_result:
  "snd rename_run =
     Inr \<lparr>sr_username = ''alice'', sr_status = ''updated'', sr_is_new = False,
          sr_repositories = [example_base ''alpha'', example_base ''mid'', example_base ''omega'']\<rparr>"
  unfolding rename_run_def alice_synced_eq
  by (simp add: model_defs example_defs)

lemma rename_run_repositories:
  "repositories (committed (fst rename_run)) =
     [\<lparr>r_id = 1, r_github_id = 1, r_name = Some ''omega'',
       r_html_url = Some ''https://github.com/example/omega'', r_description = None,
       r_language = Some ''Python'', r_user_id = 1, r_created_at = 12, r_updated_at = 22\<rparr>,
      \<lparr>r_id = 2, r_github_id = 2, r_name = Some ''alpha'',
       r_html_url = Some ''https://github.com/example/alpha'', r_description = None,
       r_language = Some ''Python'', r_user_id = 1, r_created_at = 12, r_updated_at = 12\<rparr>,
      \<lparr>r_id = 3, r_github_id = 3, r_name = Some ''mid'',
       r_html_url = Some ''https://github.com/example/mid'', r_description = None,
       r_language = Some ''Python'', r_user_id = 1, r_created_at = 12, r_updated_at = 12\<rparr>]"
  unfolding rename_run_def alice_synced_eq
  by (simp add: model_defs example_defs)

lemma nameless_run_eq:
  "nameless_run =
     (\<lparr>committed = \<lparr>users = [], repositories = []\<rparr>, txn = None,
       users_id_seq = 2, repositories_id_seq = 2\<rparr>,
      Inl SQLAlchemyError)"
  unfolding nameless_run_def nameless_repo_def
  by (simp add: model_defs example_defs)

lemma malformed_run_eq:
  "malformed_run =
     (\<lparr>committed =
        \<lparr>users = [\<lparr>u_id = 1, u_username = ''alice'', u_created_at = 10, u_updated_at = 12,
                    u_last_synced_at = Some 11\<rparr>],
         repositories =
           [\<lparr>r_id = 1, r_github_id = 1, r_name = Some ''zeta'',
             r_html_url = Some ''https://github.com/example/zeta'', r_description = None,
             r_language = Some ''Python'', r_user_id = 1, r_created_at = 12, r_updated_at = 12\<rparr>,
            \<lparr>r_id = 2, r_github_id = 2, r_name = Some ''alpha'',
             r_html_url = Some ''https://github.com/example/alpha'', r_description = None,
             r_language = Some ''Python'', r_user_id = 1, r_created_at = 12, r_updated_at = 12\<rparr>]\<rparr>,
       txn = Some
        \<lparr>users = [\<lparr>u_id = 1, u_username = ''alice'', u_created_at = 10, u_updated_at = 12,
                    u_last_synced_at = Some 11\<rparr>],
         repositories =
           [\<lparr>r_id = 1, r_github_id = 1, r_name = Some ''zeta'',
             r_html_url = Some ''https://github.com/example/zeta'', r_description = None,
             r_language = Some ''Python'', r_user_id = 1, r_created_at = 12, r_updated_at = 12\<rparr>,
            \<lparr>r_id = 2, r_github_id = 2, r_name = Some ''alpha'',
             r_html_url = Some ''https://github.com/example/alpha'', r_description = None,
             r_language = Some ''Python'', r_user_id = 1, r_created_at = 12, r_updated_at = 12\<rparr>]\<rparr>,
       users_id_seq = 2, repositories_id_seq = 3\<rparr>,
      Inr \<lparr>sr_username = ''alice'', sr_status = ''new'', sr_is_new = True,
           sr_repositories = [example_base ''alpha'', example_base ''zeta'']\<rparr>)"
  unfolding malformed_run_def no_id_repo_def
  by (simp add: model_defs example_defs)

lemma ghost_synced_eq:
  "ghost_synced =
     \<lparr>committed =
        \<lparr>users = [\<lparr>u_id = 1, u_username = ''ghost'', u_created_at = 10, u_updated_at = 12,
                    u_last_synced_at = Some 11\<rparr>],
         repositories =
           [\<lparr>r_id = 1, r_github_id = 7, r_name = Some ''haunt'',
             r_html_url = Some ''https://github.com/example/haunt'', r_description = None,
             r_language = Some ''Python'', r_user_id = 1, r_created_at = 12, r_updated_at = 12\<rparr>]\<rparr>,
      txn = None, users_id_seq = 2, repositories_id_seq = 2\<rparr>"
  by (simp add: ghost_synced_def model_defs example_defs)

lemma two_users_eq:
  "two_users =
     \<lparr>committed =
        \<lparr>users = [\<lparr>u_id = 1, u_username = ''ghost'', u_created_at = 10, u_updated_at = 12,
                    u_last_synced_at = Some 11\<rparr>,
                  \<lparr>u_id = 2, u_username = ''alice'', u_created_at = 20, u_updated_at = 22,
                    u_last_synced_at = Some 21\<rparr>],
         repositories =
           [\<lparr>r_id = 1, r_github_id = 7, r_name = Some ''haunt'',
             r_html_url = Some ''https://github.com/example/haunt'', r_description = None,
             r_language = Some ''Python'', r_user_id = 1, r_created_at = 12, r_updated_at = 12\<rparr>,
            \<lparr>r_id = 2, r_github_id = 1, r_name = Some ''zeta'',
             r_html_url = Some ''https://github.com/example/zeta'', r_description = None,
             r_language = Some ''Python'', r_user_id = 2, r_created_at = 22, r_updated_at = 22\<rparr>,
            \<lparr>r_id = 3, r_github_id = 2, r_name = Some ''alpha'',
             r_html_url = Some ''https://github.com/example/alpha'', r_description = None,
             r_language = Some ''Python'', r_user_id = 2, r_created_at = 22, r_updated_at = 22\<rparr>,
            \<lparr>r_id = 4, r_github_id = 3, r_name = Some ''mid'',
             r_html_url = Some ''https://github.com/example/mid'', r_description = None,
             r_language = Some ''Python'', r_user_id = 2, r_created_at = 22, r_updated_at = 22\<rparr>]\<rparr>,
      txn = None, users_id_seq = 3, repositories_id_seq = 5\<rparr>"
  unfolding two_users_def ghost_synced_eq
  by (simp add: model_defs example_defs)

lemma reachable_two_users: "reachable two_users"
  unfolding two_users_def ghost_synced_def
  by (rule reachable.sync [OF reachable.sync [OF reachable.init]])

lemma alice_refreshed:
  "refresh_loop (\<lambda>_. third_env) example_client (SessionLocal two_users) [''alice''] =
     (\<lparr>committed =
        \<lparr>users = [\<lparr>u_id = 1, u_username = ''ghost'', u_created_at = 10, u_updated_at = 12,
                    u_last_synced_at = Some 11\<rparr>,
                  \<lparr>u_id = 2, u_username = ''alice'', u_created_at = 20, u_updated_at = 32,
                    u_last_synced_at = Some 31\<rparr>],
         repositories =
           [\<lparr>r_id = 1, r_github_id = 7, r_name = Some ''haunt'',
             r_html_url = Some ''https://github.com/example/haunt'', r_description = None,
             r_language = Some ''Python'', r_user_id = 1, r_created_at = 12, r_updated_at = 12\<rparr>,
            \<lparr>r_id = 2, r_github_id = 1, r_name = Some ''omega'',
             r_html_url = Some ''https://github.com/example/omega'', r_description = None,
             r_language = Some ''Python'', r_user_id = 2, r_created_at = 22, r_updated_at = 32\<rparr>,
            \<lparr>r_id = 3, r_github_id = 2, r_name = Some ''alpha'',
             r_html_url = Some ''https://github.com/example/alpha'', r_description = None,
             r_language = Some ''Python'', r_user_id = 2, r_created_at = 22, r_updated_at = 22\<rparr>]\<rparr>,
       txn = None, users_id_seq = 3, repositories_id_seq = 5\<rparr>,
      [], None)"
  unfolding two_users_eq
  by (simp add: refresh_user_def fetch_github_repos_def example_client_def github_api_url_def
      third_env_def model_defs example_defs)

lemma alice_again_eq:
  "alice_again =
     (\<lparr>committed =
        \<lparr>users = [\<lparr>u_id = 1, u_username = ''ghost'', u_created_at = 10, u_updated_at = 12,
                    u_last_synced_at = Some 11\<rparr>,
                  \<lparr>u_id = 2, u_username = ''alice'', u_created_at = 20, u_updated_at = 32,
                    u_last_synced_at = Some 31\<rparr>],
         repositories =
           [\<lparr>r_id = 1, r_github_id = 7, r_name = Some ''haunt'',
             r_html_url = Some ''https://github.com/example/haunt'', r_description = None,
             r_language = Some ''Python'', r_user_id = 1, r_created_at = 12, r_updated_at = 12\<rparr>,
            \<lparr>r_id = 2, r_github_id = 1, r_name = Some ''omega'',
             r_html_url = Some ''https://github.com/example/omega'', r_description = None,
             r_language = Some ''Python'', r_user_id = 2, r_created_at = 22, r_updated_at = 32\<rparr>,
            \<lparr>r_id = 3, r_github_id = 2, r_name = Some ''alpha'',
             r_html_url = Some ''https://github.com/example/alpha'', r_description = None,
             r_language = Some ''Python'', r_user_id = 2, r_created_at = 22, r_updated_at = 22\<rparr>]\<rparr>,
       txn = Some
        \<lparr>users = [\<lparr>u_id = 1, u_username = ''ghost'', u_created_at = 10, u_updated_at = 12,
                    u_last_synced_at = Some 11\<rparr>,
                  \<lparr>u_id = 2, u_username = ''alice'', u_created_at = 20, u_updated_at = 32,
                    u_last_synced_at = Some 31\<rparr>],
         repositories =
           [\<lparr>r_id = 1, r_github_id = 7, r_name = Some ''haunt'',
             r_html_url = Some ''https://github.com/example/haunt'', r_description = None,
             r_language = Some ''Python'', r_user_id = 1, r_created_at = 12, r_updated_at = 12\<rparr>,
            \<lparr>r_id = 2, r_github_id = 1, r_name = Some ''omega'',
             r_html_url = Some ''https://github.com/example/omega'', r_description = None,
             r_language = Some ''Python'', r_user_id = 2, r_created_at = 22, r_updated_at = 32\<rparr>,
            \<lparr>r_id = 3, r_github_id = 2, r_name = Some ''alpha'',
             r_html_url = Some ''https://github.com/example/alpha'', r_description = None,
             r_language = Some ''Python'', r_user_id = 2, r_created_at = 22, r_updated_at = 22\<rparr>]\<rparr>,
       users_id_seq = 3, repositories_id_seq = 5\<rparr>,
      Inr \<lparr>sr_username = ''alice'', sr_status = ''updated'', sr_is_new = False,
           sr_repositories = [example_base ''alpha'', example_base ''omega'']\<rparr>)"
  unfolding alice_again_def two_users_eq
  by (simp add: third_env_def model_defs example_defs)

lemma later_env_same:
  "collate_le later_env = collate_le example_env"
  "parse_http_url later_env = parse_http_url example_env"
  by (simp_all add: later_env_def)

lemma folded_run_result:
  "snd folded_run =
     Inr \<lparr>sr_username = ''alice'', sr_status = ''new'', sr_is_new = True,
          sr_repositories = [example_base ''alpha'', example_base ''Beta'']\<rparr>"
  unfolding folded_run_def
  by (simp add: folding_env_def lower_def model_defs example_defs)

section \<open>C1: the stored external ids are those of the fetched list\<close>

text \<open>
  C1. After a call whose commit went through (every call that returns a response is
  one), the external ids of the repository rows stored for the user are exactly the
  external ids of the records of the fetched list that carry one: every other row of the
  user is gone, and when no record carries an id the user has no repository left.
  \<open>user\<close> is the row the store holds for \<open>username\<close> after the call.
\<close>

theorem reconcile_external_ids:
  assumes "upsert_user_and_repos e db username repos_data = (db', res)"
    and ok: "res \<noteq> Inl SQLAlchemyError"
  shows "\<exists>user. find_user (committed db') username = Some user \<and>
           set (map r_github_id (user_repositories (committed db') (u_id user))) =
             set (valid_ids repos_data)"
proof -
  from upsert_repositories [OF assms] obtain db1 user is_new news where
    g: "get_or_create_user e db username = (db1, Inr (user, is_new))"
    and rows: "repositories (committed db') =
       map (update_row (utcnow_commit e) (loaded (view db1) (u_id user) repos_data))
         (kept_rows (view db1) (u_id user) repos_data) @ news"
    and nk: "map repo_key news = map new_key (new_objects (view db1) (u_id user) repos_data)"
    by blast
  from upsert_user_row [OF assms g] obtain user' where
    u: "find_user (committed db') username = Some user'" "u_id user' = u_id user"
    by blast
  have "set (map r_github_id (user_repositories (committed db') (u_id user))) =
      set (valid_ids repos_data)"
    unfolding user_repositories_ids using reconciled_keys [OF rows nk] by blast
  with u show ?thesis by simp
qed

theorem reconcile_external_ids_witness:
  "prune_run = (fst prune_run, Inr \<lparr>sr_username = ''alice'', sr_status = ''updated'',
       sr_is_new = False, sr_repositories = [example_base ''alpha'', example_base ''zeta'']\<rparr>) \<and>
   set (map r_github_id (user_repositories (committed alice_synced) 1)) = {1, 2, 3} \<and>
   (\<exists>user. find_user (committed (fst prune_run)) ''alice'' = Some user \<and>
      set (map r_github_id (user_repositories (committed (fst prune_run)) (u_id user))) =
        set (valid_ids [example_repo 1 ''zeta'', example_repo 2 ''alpha'']))"
proof -
  have run: "upsert_user_and_repos later_env (SessionLocal alice_synced) ''alice''
       [example_repo 1 ''zeta'', example_repo 2 ''alpha''] =
     (fst prune_run, Inr \<lparr>sr_username = ''alice'', sr_status = ''updated'',
       sr_is_new = False, sr_repositories = [example_base ''alpha'', example_base ''zeta'']\<rparr>)"
    unfolding prune_run_def [symmetric] by (simp add: prune_run_eq)
  have before: "set (map r_github_id (user_repositories (committed alice_synced) 1)) = {1, 2, 3}"
    by (auto simp: alice_synced_eq user_repositories_def)
  have ok: "Inr \<lparr>sr_username = ''alice'', sr_status = ''updated'', sr_is_new = False,
       sr_repositories = [example_base ''alpha'', example_base ''zeta'']\<rparr> \<noteq>
     (Inl SQLAlchemyError :: exn + user_sync_response)"
    by simp
  from reconcile_external_ids [OF run ok] run before show ?thesis
    unfolding prune_run_def [symmetric] by simp
qed

section \<open>C2: the call is atomic\<close>

text \<open>
  C2. For every session state and every input, one of two things has happened when the
  call ends. Either the store failed: the call raises the store's error and the
  committed database is what it was. Or the commit went through, and all of the call
  is in the committed database at once: the user row exists and carries the sync time,
  the user's external ids are those of the list (new rows created, others pruned), and,
  where the schema's constraints held before, every row of the user carries the
  attributes of the last record with its id.
\<close>

theorem upsert_atomic:
  assumes "upsert_user_and_repos e db username repos_data = (db', res)"
  shows "(res = Inl SQLAlchemyError \<and> committed db' = committed db) \<or>
         (res \<noteq> Inl SQLAlchemyError \<and>
          (\<exists>user. find_user (committed db') username = Some user \<and>
             u_last_synced_at user = Some (utcnow_sync e) \<and>
             set (map r_github_id (user_repositories (committed db') (u_id user))) =
               set (valid_ids repos_data) \<and>
             (constraints_ok (view db) \<longrightarrow>
                (\<forall>row \<in> set (user_repositories (committed db') (u_id user)).
                   map_option attrs_of_dict (last_record (r_github_id row) repos_data) =
                     Some (attrs_of_row row)))))"
proof (cases "res = Inl SQLAlchemyError")
  case True
  with assms have "committed db' = committed db"
    by (auto dest: upsert_store_error)
  with True show ?thesis by simp
next
  case False
  from upsert_repositories [OF assms False] obtain db1 user is_new news where
    g: "get_or_create_user e db username = (db1, Inr (user, is_new))"
    and rows: "repositories (committed db') =
       map (update_row (utcnow_commit e) (loaded (view db1) (u_id user) repos_data))
         (kept_rows (view db1) (u_id user) repos_data) @ news"
    and nk: "map repo_key news = map new_key (new_objects (view db1) (u_id user) repos_data)"
    by blast
  from upsert_user_row [OF assms False g] obtain user' where
    u: "find_user (committed db') username = Some user'" "u_id user' = u_id user"
      "u_last_synced_at user' = Some (utcnow_sync e)"
    by blast
  have ids: "set (map r_github_id (user_repositories (committed db') (u_id user'))) =
      set (valid_ids repos_data)"
    unfolding user_repositories_ids u(2) using reconciled_keys [OF rows nk] by blast
  have "map_option attrs_of_dict (last_record (r_github_id row) repos_data) =
      Some (attrs_of_row row)"
    if "constraints_ok (view db)" "row \<in> set (user_repositories (committed db') (u_id user'))"
    for row
    using upsert_attrs [OF assms False that(1) g that(2) [unfolded u(2)]] by auto
  with False u ids show ?thesis by blast
qed

theorem upsert_atomic_witness:
  "upsert_user_and_repos example_env (SessionLocal init_session) ''alice'' [nameless_repo] =
     (fst nameless_run, Inl SQLAlchemyError) \<and>
   users (view (fst (get_or_create_user example_env (SessionLocal init_session) ''alice''))) =
     [\<lparr>u_id = 1, u_username = ''alice'', u_created_at = 10, u_updated_at = 10,
       u_last_synced_at = None\<rparr>] \<and>
   committed (fst nameless_run) = committed (SessionLocal init_session) \<and>
   upsert_user_and_repos example_env (SessionLocal init_session) ''alice'' alice_repos =
     (fst first_run, Inr alice_response) \<and>
   constraints_ok (view (SessionLocal init_session)) \<and>
   (\<exists>user. find_user (committed (fst first_run)) ''alice'' = Some user \<and>
      u_last_synced_at user = Some 11 \<and>
      set (map r_github_id (user_repositories (committed (fst first_run)) (u_id user))) = {1, 2, 3} \<and>
      list_all (\<lambda>row. map_option attrs_of_dict (last_record (r_github_id row) alice_repos) =
                  Some (attrs_of_row row))
        (user_repositories (committed (fst first_run)) (u_id user)))"
proof -
  have failed: "upsert_user_and_repos example_env (SessionLocal init_session) ''alice''
      [nameless_repo] = (fst nameless_run, Inl SQLAlchemyError)"
    unfolding nameless_run_def [symmetric] by (simp add: nameless_run_eq)
  have partial: "users (view (fst (get_or_create_user example_env (SessionLocal init_session)
      ''alice''))) =
     [\<lparr>u_id = 1, u_username = ''alice'', u_created_at = 10, u_updated_at = 10,
       u_last_synced_at = None\<rparr>]"
    by (simp add: model_defs example_defs)
  have c: "constraints_ok (view (SessionLocal init_session))"
    by (simp add: constraints_ok_def SessionLocal_def init_session_def view_def)
  have ids: "set (valid_ids alice_repos) = {1, 2, 3}"
    by (auto simp: valid_ids_def alice_repos_def example_repo_def)
  from upsert_atomic [OF failed]
  have "committed (fst nameless_run) = committed (SessionLocal init_session)"
    by simp
  moreover from upsert_atomic [OF first_run_eq] c ids
  have "\<exists>user. find_user (committed (fst first_run)) ''alice'' = Some user \<and>
      u_last_synced_at user = Some 11 \<and>
      set (map r_github_id (user_repositories (committed (fst first_run)) (u_id user))) = {1, 2, 3} \<and>
      list_all (\<lambda>row. map_option attrs_of_dict (last_record (r_github_id row) alice_repos) =
                  Some (attrs_of_row row))
        (user_repositories (committed (fst first_run)) (u_id user))"
    by (simp add: list_all_iff example_env_def)
  ultimately show ?thesis using failed partial first_run_eq c by blast
qed

section \<open>C3: one row per user and external id\<close>

text \<open>
  C3. Whatever state the service has reached and whatever list is fetched, after the
  call no two repository rows share \<open>(user_id, github_id)\<close>. And when the call returns,
  every external id of the list has exactly one row of the user, which carries the name
  of the last record with that id: a second sync with a changed name leaves one row
  for the id, with the new name.
\<close>

theorem unique_user_github_id:
  assumes "reachable srv"
    and "upsert_user_and_repos e (SessionLocal srv) username repos_data = (db', res)"
  shows "distinct (map repo_key (repositories (committed db'))) \<and>
         (\<forall>resp g repo. res = Inr resp \<longrightarrow> last_record g repos_data = Some repo \<longrightarrow>
            (\<exists>user row. find_user (committed db') username = Some user \<and>
               filter (\<lambda>r. r_github_id r = g)
                 (user_repositories (committed db') (u_id user)) = [row] \<and>
               r_name row = d_name repo))"
proof -
  from reachable_invariant [OF assms(1)]
  have c: "constraints_ok (view (SessionLocal srv))" "constraints_ok (committed (SessionLocal srv))"
    by (simp_all add: SessionLocal_def)
  from upsert_constraints_ok [OF assms(2) c]
  have "distinct (map repo_key (repositories (committed db')))"
    by (simp add: constraints_ok_def)
  moreover have "\<exists>user row. find_user (committed db') username = Some user \<and>
       filter (\<lambda>r. r_github_id r = g) (user_repositories (committed db') (u_id user)) = [row] \<and>
       r_name row = d_name repo"
    if "res = Inr resp" "last_record g repos_data = Some repo" for resp g repo
  proof -
    from that(1) have ok: "res \<noteq> Inl SQLAlchemyError" by simp
    from upsert_row_of_record [OF assms(2) ok c that(2)] show ?thesis
      by (auto simp: attrs_of_row_def attrs_of_dict_def)
  qed
  ultimately show ?thesis by blast
qed

theorem unique_user_github_id_witness:
  "reachable alice_synced \<and>
   r_name ` set (user_repositories (committed alice_synced) 1) = {Some ''zeta'', Some ''alpha'', Some ''mid''} \<and>
   upsert_user_and_repos later_env (SessionLocal alice_synced) ''alice''
       [example_repo 1 ''omega'', example_repo 2 ''alpha'', example_repo 3 ''mid''] =
     (fst rename_run, Inr \<lparr>sr_username = ''alice'', sr_status = ''updated'', sr_is_new = False,
          sr_repositories = [example_base ''alpha'', example_base ''mid'', example_base ''omega'']\<rparr>) \<and>
   last_record 1 [example_repo 1 ''omega'', example_repo 2 ''alpha'', example_repo 3 ''mid''] =
     Some (example_repo 1 ''omega'') \<and>
   distinct (map repo_key (repositories (committed (fst rename_run)))) \<and>
   (\<exists>user row. find_user (committed (fst rename_run)) ''alice'' = Some user \<and>
      filter (\<lambda>r. r_github_id r = 1)
        (user_repositories (committed (fst rename_run)) (u_id user)) = [row] \<and>
      r_name row = Some ''omega'')"
proof -
  have run: "upsert_user_and_repos later_env (SessionLocal alice_synced) ''alice''
       [example_repo 1 ''omega'', example_repo 2 ''alpha'', example_repo 3 ''mid''] =
     (fst rename_run, Inr \<lparr>sr_username = ''alice'', sr_status = ''updated'', sr_is_new = False,
          sr_repositories = [example_base ''alpha'', example_base ''mid'', example_base ''omega'']\<rparr>)"
    unfolding rename_run_def [symmetric] rename_run_result [symmetric] by simp
  have l: "last_record 1 [example_repo 1 ''omega'', example_repo 2 ''alpha'', example_repo 3 ''mid''] =
      Some (example_repo 1 ''omega'')"
    by (simp add: last_record_def example_repo_def)
  have before: "r_name ` set (user_repositories (committed alice_synced) 1) =
      {Some ''zeta'', Some ''alpha'', Some ''mid''}"
    by (auto simp: alice_synced_eq user_repositories_def)
  from unique_user_github_id [OF reachable_alice_synced run] l
  have "distinct (map repo_key (repositories (committed (fst rename_run)))) \<and>
     (\<exists>user row. find_user (committed (fst rename_run)) ''alice'' = Some user \<and>
        filter (\<lambda>r. r_github_id r = 1)
          (user_repositories (committed (fst rename_run)) (u_id user)) = [row] \<and>
        r_name row = d_name (example_repo 1 ''omega''))"
    by blast
  then show ?thesis
    using reachable_alice_synced run l before by (simp add: example_repo_def)
qed

section \<open>C4: a second call with the same list changes no repository\<close>

lemma from_orm_cong:
  assumes "parse_http_url e2 = parse_http_url e"
  shows "from_orm e2 = from_orm e"
  unfolding from_orm_def assms ..

lemma in_sync_no_new_objects:
  assumes "in_sync v uid repos_data"
  shows "new_objects v uid repos_data = []"
proof -
  have "find_repository v uid g \<noteq> None" if "g \<in> set (valid_ids repos_data)" for g
  proof -
    from that assms have "(uid, g) \<in> set (map repo_key (repositories v))"
      unfolding in_sync_def user_repositories_ids by blast
    then show ?thesis by (simp add: find_repository_None)
  qed
  then have "n \<notin> set (new_objects v uid repos_data)" for n
    using new_objects_keys [of n v uid repos_data] by blast
  then show ?thesis by (cases "new_objects v uid repos_data") auto
qed

lemma in_sync_kept_rows:
  assumes "in_sync v uid repos_data"
  shows "kept_rows v uid repos_data = repositories v"
proof -
  have "r_github_id r \<in> set (valid_ids repos_data)"
    if "r \<in> set (repositories v)" "r_user_id r = uid" for r
  proof -
    from that have "r_github_id r \<in> set (map r_github_id (user_repositories v uid))"
      by (simp add: user_repositories_def)
    with assms show ?thesis by (simp add: in_sync_def)
  qed
  then show ?thesis by (simp add: kept_rows_def)
qed

lemma in_sync_clean:
  assumes s: "in_sync v uid repos_data"
    and d: "distinct (map r_id (repositories v))" "distinct (map repo_key (repositories v))"
    and r: "row \<in> set (repositories v)"
  shows "update_row t (loaded v uid repos_data) row = row \<and> update_ok (loaded v uid repos_data) row"
proof (cases "r_user_id row = uid")
  case True
  with r have "row \<in> set (user_repositories v uid)" by (simp add: user_repositories_def)
  with s have "map_option attrs_of_dict (last_record (r_github_id row) repos_data) =
      Some (attrs_of_row row)"
    by (simp add: in_sync_def list_all_iff)
  with loaded_attrs [OF d r True, of repos_data]
  have "map_option attrs_of_row (loaded v uid repos_data (r_id row)) = Some (attrs_of_row row)"
    by simp
  then show ?thesis by (simp add: update_row_clean update_ok_clean)
next
  case False
  from loaded_other_user [OF d(1) r False] show ?thesis
    by (simp add: update_row_untouched update_ok_def)
qed

lemma upsert_in_sync:
  assumes c: "constraints_ok (view db)"
    and u: "find_user (view db) username = Some user"
    and s: "in_sync (view db) (u_id user) repos_data"
  shows "\<exists>db3. upsert_user_and_repos e db username repos_data =
            build_response e (u_id user) False db3 \<and>
          txn db3 = None \<and>
          repositories (committed db3) = repositories (view db) \<and>
          map u_id (users (committed db3)) = map u_id (users (view db))"
proof -
  let ?v = "view db" and ?uid = "u_id user"
  let ?st = "foldl (upsert_repo ?v ?uid) loop_init repos_data"
  let ?db2 = "(autobegin db)\<lparr>txn := Some (bulk_delete ?uid (valid_ids repos_data) ?v)\<rparr>"
  let ?t = "utcnow_commit e"
  from c have d: "distinct (map r_id (repositories ?v))" "distinct (map repo_key (repositories ?v))"
    by (simp_all add: constraints_ok_def)
  have v2: "repositories (view ?db2) = repositories ?v"
    using in_sync_kept_rows [OF s] by (simp add: kept_rows_def)
  have m: "identity_map ?st = loaded ?v ?uid repos_data" by (simp add: loaded_def)
  have p: "pending ?st = []"
    using in_sync_no_new_objects [OF s] by (simp add: loop_pending)
  have ok: "list_all (update_ok (identity_map ?st)) (repositories (view ?db2))"
    unfolding v2 m using in_sync_clean [OF s d] by (simp add: list_all_iff)
  have "map (update_row ?t (identity_map ?st)) (repositories (view ?db2)) = repositories ?v"
    unfolding v2 m using in_sync_clean [OF s d] by (simp add: map_idI)
  then have ins: "flush_inserts ?t (repositories_id_seq ?db2)
      (map (update_row ?t (identity_map ?st)) (repositories (view ?db2))) (pending ?st) =
      (repositories_id_seq ?db2, Inr (repositories ?v))"
    by (simp add: p)
  let ?db3 = "?db2\<lparr>committed := (flush_user (utcnow_sync e) ?t ?uid (view ?db2))
                         \<lparr>repositories := repositories ?v\<rparr>,
         txn := None, repositories_id_seq := repositories_id_seq ?db2\<rparr>"
  from commit_succeeds [OF ok ins, of ?uid]
  have "commit e ?uid ?st ?db2 = (?db3, Inr ())" .
  then have "upsert_user_and_repos e db username repos_data = build_response e ?uid False ?db3"
    by (simp add: upsert_unfold get_or_create_user_existing [OF u] view_autobegin)
  moreover have "txn ?db3 = None" "repositories (committed ?db3) = repositories ?v"
    "map u_id (users (committed ?db3)) = map u_id (users ?v)"
    by simp_all
  ultimately show ?thesis by blast
qed

lemma upsert_leaves_in_sync:
  assumes run: "upsert_user_and_repos e db username repos_data = (db', Inr resp)"
    and c: "constraints_ok (view db)"
  shows "\<exists>user. find_user (committed db') username = Some user \<and>
           in_sync (committed db') (u_id user) repos_data \<and>
           those (map (from_orm e) (order_by (name_le (collate_le e))
              (user_repositories (committed db') (u_id user)))) = Some (sr_repositories resp)"
proof -
  have ok: "Inr resp \<noteq> (Inl SQLAlchemyError :: exn + user_sync_response)" by simp
  from upsert_commit_facts [OF run ok] obtain db1 user is_new where
    g: "get_or_create_user e db username = (db1, Inr (user, is_new))"
    and b: "build_response e (u_id user) is_new (db'\<lparr>txn := None\<rparr>) = (db', Inr resp)"
    by blast
  from upsert_repositories [OF run ok] g obtain news where
    rows: "repositories (committed db') =
       map (update_row (utcnow_commit e) (loaded (view db1) (u_id user) repos_data))
         (kept_rows (view db1) (u_id user) repos_data) @ news"
    and nk: "map repo_key news = map new_key (new_objects (view db1) (u_id user) repos_data)"
    by auto
  from upsert_user_row [OF run ok g] obtain user' where
    u: "find_user (committed db') username = Some user'" "u_id user' = u_id user"
    by blast
  have ids: "set (map r_github_id (user_repositories (committed db') (u_id user))) =
      set (valid_ids repos_data)"
    unfolding user_repositories_ids using reconciled_keys [OF rows nk] by blast
  have "map_option attrs_of_dict (last_record (r_github_id row) repos_data) =
      Some (attrs_of_row row)"
    if "row \<in> set (user_repositories (committed db') (u_id user))" for row
    using upsert_attrs [OF run ok c g that] by auto
  with ids have "in_sync (committed db') (u_id user) repos_data"
    by (simp add: in_sync_def list_all_iff)
  moreover from build_response_Inr [OF b]
  have "those (map (from_orm e) (order_by (name_le (collate_le e))
      (user_repositories (committed db') (u_id user)))) = Some (sr_repositories resp)"
    by simp
  ultimately show ?thesis using u by auto
qed

lemma upsert_keeps_usernames:
  assumes "upsert_user_and_repos e db username repos_data = (db', res)"
    and "txn db = None"
  shows "set (map u_username (users (committed db))) \<subseteq> set (map u_username (users (committed db')))"
proof (cases "res = Inl SQLAlchemyError")
  case True
  with assms(1) have "committed db' = committed db"
    by (auto dest: upsert_store_error)
  then show ?thesis by simp
next
  case False
  from upsert_repositories [OF assms(1) False] obtain db1 user is_new where
    g: "get_or_create_user e db username = (db1, Inr (user, is_new))"
    and u: "users (committed db') =
       users (flush_user (utcnow_sync e) (utcnow_commit e) (u_id user) (view db1))"
    by blast
  have "map u_username (users (committed db')) = map u_username (users (view db1))"
    unfolding u by simp
  moreover have "view db = committed db" using assms(2) by (simp add: view_def)
  ultimately show ?thesis
    using get_or_create_user_users [OF g] by auto
qed

lemma later_keeps_usernames:
  "later srv srv' \<Longrightarrow> txn srv = None \<Longrightarrow>
     txn srv' = None \<and>
     set (map u_username (users (committed srv))) \<subseteq> set (map u_username (users (committed srv')))"
proof (induction rule: later.induct)
  case (now srv)
  then show ?case by simp
next
  case (sync srv srv1 e username repos_data)
  let ?run = "upsert_user_and_repos e (SessionLocal srv1) username repos_data"
  have "?run = (fst ?run, snd ?run)" by simp
  from upsert_keeps_usernames [OF this]
  have "set (map u_username (users (committed srv1))) \<subseteq>
      set (map u_username (users (committed (fst ?run))))"
    by (simp add: SessionLocal_def)
  moreover from sync have "set (map u_username (users (committed srv))) \<subseteq>
      set (map u_username (users (committed srv1)))"
    by simp
  ultimately have "set (map u_username (users (committed srv))) \<subseteq>
      set (map u_username (users (committed (fst ?run))))"
    by (rule order_trans [rotated])
  then show ?case by (simp add: close_def)
qed

text \<open>
  C4. In a reachable state, let a call for a username and a list return. Its status is
  "new" when the store did not hold the username. A second call with the same list
  (at any later time, under the same collation and URL check) returns too, with the
  status "updated" and the same repositories in its response, and leaves the
  repository table exactly as the first call left it. And after any later calls for
  any usernames, every call for this username that returns has the status "updated".
\<close>

theorem reconcile_idempotent:
  assumes "reachable srv"
    and "upsert_user_and_repos e (SessionLocal srv) username repos_data = (db1, Inr resp1)"
    and "collate_le e2 = collate_le e" and "parse_http_url e2 = parse_http_url e"
    and "upsert_user_and_repos e2 (SessionLocal (close db1)) username repos_data = (db2, res2)"
  shows "(find_user (committed srv) username = None \<longrightarrow> sr_status resp1 = ''new'') \<and>
         (\<exists>resp2. res2 = Inr resp2 \<and> sr_status resp2 = ''updated'' \<and>
            sr_repositories resp2 = sr_repositories resp1) \<and>
         repositories (committed db2) = repositories (committed db1) \<and>
         (\<forall>srv3 e3 repos_data3 db3 resp3.
            later (close db1) srv3 \<longrightarrow>
            upsert_user_and_repos e3 (SessionLocal srv3) username repos_data3 = (db3, Inr resp3) \<longrightarrow>
            sr_status resp3 = ''updated'')"
proof -
  from reachable_invariant [OF assms(1)]
  have t: "txn (SessionLocal srv) = None"
    and c: "constraints_ok (view (SessionLocal srv))" "constraints_ok (committed (SessionLocal srv))"
    by (simp_all add: SessionLocal_def)
  have first: "find_user (committed srv) username = None \<longrightarrow> sr_status resp1 = ''new''"
    using is_new_status [OF t assms(2)] by (simp add: SessionLocal_def)
  let ?s1 = "SessionLocal (close db1)"
  have v1: "view ?s1 = committed db1" by (simp add: SessionLocal_def close_def)
  from upsert_constraints_ok [OF assms(2) c] have c1: "constraints_ok (view ?s1)"
    unfolding v1 .
  from upsert_leaves_in_sync [OF assms(2) c(1)] obtain user where
    u: "find_user (view ?s1) username = Some user"
    and s: "in_sync (view ?s1) (u_id user) repos_data"
    and rs: "those (map (from_orm e) (order_by (name_le (collate_le e))
        (user_repositories (committed db1) (u_id user)))) = Some (sr_repositories resp1)"
    unfolding v1 by blast
  from upsert_in_sync [OF c1 u s, of e2] assms(5) obtain db3 where
    b: "build_response e2 (u_id user) False db3 = (db2, res2)"
    and t3: "txn db3 = None"
    and r3: "repositories (committed db3) = repositories (committed db1)"
    and i3: "map u_id (users (committed db3)) = map u_id (users (committed db1))"
    unfolding v1 by auto
  from t3 have v3: "view db3 = committed db3" by (simp add: view_def)
  from u have "user \<in> set (users (committed db1))"
    unfolding v1 by (auto simp: find_user_def dest: find_Some_set)
  then have "u_id user \<in> set (map u_id (users (view db3)))"
    unfolding v3 i3 by simp
  then obtain user3 where f3: "find (\<lambda>u. u_id u = u_id user) (users (view db3)) = Some user3"
    by (cases "find (\<lambda>u. u_id u = u_id user) (users (view db3))") (auto simp: find_None_set)
  have "those (map (from_orm e2) (order_by (name_le (collate_le e2))
      (user_repositories (view db3) (u_id user)))) = Some (sr_repositories resp1)"
    unfolding v3 user_repositories_cong [OF r3] assms(3) from_orm_cong [OF assms(4)] by (rule rs)
  from build_response_result [OF f3 this, of False] b
  have second: "\<exists>resp2. res2 = Inr resp2 \<and> sr_status resp2 = ''updated'' \<and>
      sr_repositories resp2 = sr_repositories resp1"
    and d2: "db2 = autobegin db3"
    by auto
  from d2 r3 have same: "repositories (committed db2) = repositories (committed db1)" by simp
  have third: "sr_status resp3 = ''updated''"
    if l: "later (close db1) srv3"
      and run3: "upsert_user_and_repos e3 (SessionLocal srv3) username repos_data3 = (db3', Inr resp3)"
    for srv3 e3 repos_data3 db3' resp3
  proof -
    have "txn (close db1) = None" by (simp add: close_def)
    from later_keeps_usernames [OF l this]
    have t3': "txn (SessionLocal srv3) = None"
      and "set (map u_username (users (committed db1))) \<subseteq>
           set (map u_username (users (committed srv3)))"
      by (simp_all add: SessionLocal_def close_def)
    moreover from u have "username \<in> set (map u_username (users (committed db1)))"
      unfolding v1 by (auto simp: find_user_def dest: find_Some_set)
    ultimately have "find_user (committed (SessionLocal srv3)) username \<noteq> None"
      by (auto simp: find_user_None SessionLocal_def)
    with is_new_status [OF t3' run3] show ?thesis
      by (auto split: if_splits)
  qed
  from first second same third show ?thesis by blast
qed

theorem reconcile_idempotent_witness:
  "reachable init_session \<and>
   upsert_user_and_repos example_env (SessionLocal init_session) ''alice'' alice_repos =
     (fst first_run, Inr alice_response) \<and>
   upsert_user_and_repos later_env (SessionLocal (close (fst first_run))) ''alice'' alice_repos =
     (fst second_run, snd second_run) \<and>
   find_user (committed init_session) ''alice'' = None \<and>
   sr_status alice_response = ''new'' \<and>
   (\<exists>resp2. snd second_run = Inr resp2 \<and> sr_status resp2 = ''updated'' \<and>
      sr_repositories resp2 = sr_repositories alice_response) \<and>
   repositories (committed (fst second_run)) = repositories (committed (fst first_run)) \<and>
   later (close (fst first_run)) alice_synced \<and>
   upsert_user_and_repos later_env (SessionLocal alice_synced) ''alice''
       [example_repo 1 ''zeta'', example_repo 2 ''alpha''] =
     (fst prune_run, Inr \<lparr>sr_username = ''alice'', sr_status = ''updated'',
       sr_is_new = False, sr_repositories = [example_base ''alpha'', example_base ''zeta'']\<rparr>)"
proof -
  have second: "upsert_user_and_repos later_env (SessionLocal (close (fst first_run))) ''alice''
      alice_repos = (fst second_run, snd second_run)"
    by (simp add: second_run_def)
  have absent: "find_user (committed init_session) ''alice'' = None"
    by (simp add: find_user_def init_session_def)
  have l: "later (close (fst first_run)) alice_synced"
    unfolding alice_synced_first_run by (rule later.now)
  have third: "upsert_user_and_repos later_env (SessionLocal alice_synced) ''alice''
       [example_repo 1 ''zeta'', example_repo 2 ''alpha''] =
     (fst prune_run, Inr \<lparr>sr_username = ''alice'', sr_status = ''updated'',
       sr_is_new = False, sr_repositories = [example_base ''alpha'', example_base ''zeta'']\<rparr>)"
    unfolding prune_run_def [symmetric] by (simp add: prune_run_eq)
  from reconcile_idempotent [OF reachable.init first_run_eq later_env_same second] absent
  have "sr_status alice_response = ''new'' \<and>
     (\<exists>resp2. snd second_run = Inr resp2 \<and> sr_status resp2 = ''updated'' \<and>
        sr_repositories resp2 = sr_repositories alice_response) \<and>
     repositories (committed (fst second_run)) = repositories (committed (fst first_run))"
    by blast
  with reachable.init first_run_eq second absent l third show ?thesis by blast
qed

section \<open>C5: the four attributes are overwritten\<close>

text \<open>
  C5 as the specification states it fails: a record with an id and no name makes the
  commit fail (\<^verbatim>\<open>name\<close> is \<^verbatim>\<open>nullable=False\<close>), so the call raises and stores nothing.
\<close>

theorem missing_name_counterexample:
  "d_id nameless_repo = Some 1 \<and> d_name nameless_repo = None \<and>
   snd nameless_run = Inl SQLAlchemyError \<and>
   repositories (committed (fst nameless_run)) = []"
  by (simp add: nameless_run_eq) (simp add: nameless_repo_def example_repo_def)

text \<open>
  C5, amended. In a reachable state, take the last record of the list that carries a
  given id. When the call returns, the user's row for that id holds the record's
  name, html_url, description and language, a missing description or language as NULL.
  When the record's name or html_url is missing, the call raises the store's error and
  the committed database is unchanged.
\<close>

theorem overwrite_attributes:
  assumes "reachable srv"
    and "upsert_user_and_repos e (SessionLocal srv) username repos_data = (db', res)"
    and "last_record g repos_data = Some repo"
  shows "(\<forall>resp. res = Inr resp \<longrightarrow>
            (\<exists>user row. find_user (committed db') username = Some user \<and>
               row \<in> set (user_repositories (committed db') (u_id user)) \<and>
               r_github_id row = g \<and>
               r_name row = d_name repo \<and> r_html_url row = d_html_url repo \<and>
               r_description row = d_description repo \<and> r_language row = d_language repo)) \<and>
         (d_name repo = None \<or> d_html_url repo = None \<longrightarrow>
            res = Inl SQLAlchemyError \<and> committed db' = committed srv)"
proof -
  from reachable_invariant [OF assms(1)]
  have c: "constraints_ok (view (SessionLocal srv))" "constraints_ok (committed (SessionLocal srv))"
    by (simp_all add: SessionLocal_def)
  have row: "\<exists>user row. find_user (committed db') username = Some user \<and>
       row \<in> set (user_repositories (committed db') (u_id user)) \<and> r_github_id row = g \<and>
       attrs_of_row row = attrs_of_dict repo"
    if ok: "res \<noteq> Inl SQLAlchemyError"
  proof -
    from upsert_row_of_record [OF assms(2) ok c assms(3)] obtain user row where
      u: "find_user (committed db') username = Some user"
      and f: "filter (\<lambda>r. r_github_id r = g) (user_repositories (committed db') (u_id user)) = [row]"
      and a: "attrs_of_row row = attrs_of_dict repo" by blast
    from f have "row \<in> set (filter (\<lambda>r. r_github_id r = g)
        (user_repositories (committed db') (u_id user)))" by simp
    then have "row \<in> set (user_repositories (committed db') (u_id user))" "r_github_id row = g"
      by simp_all
    with u a show ?thesis by blast
  qed
  have first: "\<exists>user row. find_user (committed db') username = Some user \<and>
       row \<in> set (user_repositories (committed db') (u_id user)) \<and> r_github_id row = g \<and>
       r_name row = d_name repo \<and> r_html_url row = d_html_url repo \<and>
       r_description row = d_description repo \<and> r_language row = d_language repo"
    if "res = Inr resp" for resp
  proof -
    from that have "res \<noteq> Inl SQLAlchemyError" by simp
    from row [OF this] show ?thesis
      by (simp add: attrs_of_row_def attrs_of_dict_def)
  qed
  have second: "res = Inl SQLAlchemyError \<and> committed db' = committed srv"
    if missing: "d_name repo = None \<or> d_html_url repo = None"
  proof -
    have "res = Inl SQLAlchemyError"
    proof (rule ccontr)
      assume ok: "res \<noteq> Inl SQLAlchemyError"
      from row [OF ok] obtain user :: user_row and row where
        mem: "row \<in> set (user_repositories (committed db') (u_id user))"
        and a: "attrs_of_row row = attrs_of_dict repo" by blast
      from upsert_constraints_ok [OF assms(2) c] mem
      have "repository_columns_ok (attrs_of_row row)"
        by (simp add: constraints_ok_def list_all_iff user_repositories_def)
      with a missing show False
        by (auto simp: repository_columns_ok_def attrs_of_dict_def)
    qed
    moreover from this assms(2) have "committed db' = committed (SessionLocal srv)"
      by (auto dest: upsert_store_error)
    ultimately show ?thesis by (simp add: SessionLocal_def)
  qed
  from first second show ?thesis by blast
qed

theorem overwrite_attributes_witness:
  "reachable alice_synced \<and>
   upsert_user_and_repos later_env (SessionLocal alice_synced) ''alice''
       [example_repo 1 ''omega'', example_repo 2 ''alpha'', example_repo 3 ''mid''] =
     (fst rename_run, snd rename_run) \<and>
   last_record 1 [example_repo 1 ''omega'', example_repo 2 ''alpha'', example_repo 3 ''mid''] =
     Some (example_repo 1 ''omega'') \<and>
   (\<exists>user row. find_user (committed (fst rename_run)) ''alice'' = Some user \<and>
      row \<in> set (user_repositories (committed (fst rename_run)) (u_id user)) \<and>
      r_github_id row = 1 \<and> r_name row = Some ''omega'' \<and>
      r_html_url row = Some ''https://github.com/example/omega'' \<and>
      r_description row = None \<and> r_language row = Some ''Python'') \<and>
   reachable init_session \<and>
   upsert_user_and_repos example_env (SessionLocal init_session) ''alice'' [nameless_repo] =
     (fst nameless_run, snd nameless_run) \<and>
   last_record 1 [nameless_repo] = Some nameless_repo \<and> d_name nameless_repo = None \<and>
   snd nameless_run = Inl SQLAlchemyError \<and>
   committed (fst nameless_run) = committed init_session"
proof -
  have run: "upsert_user_and_repos later_env (SessionLocal alice_synced) ''alice''
       [example_repo 1 ''omega'', example_repo 2 ''alpha'', example_repo 3 ''mid''] =
     (fst rename_run, snd rename_run)"
    by (simp add: rename_run_def)
  have l: "last_record 1 [example_repo 1 ''omega'', example_repo 2 ''alpha'', example_repo 3 ''mid''] =
      Some (example_repo 1 ''omega'')"
    by (simp add: last_record_def example_repo_def)
  have run2: "upsert_user_and_repos example_env (SessionLocal init_session) ''alice''
      [nameless_repo] = (fst nameless_run, snd nameless_run)"
    by (simp add: nameless_run_def)
  have l2: "last_record 1 [nameless_repo] = Some nameless_repo" and n: "d_name nameless_repo = None"
    by (simp_all add: last_record_def nameless_repo_def example_repo_def)
  from overwrite_attributes [OF reachable_alice_synced run l] rename_run_result
  have a: "\<exists>user row. find_user (committed (fst rename_run)) ''alice'' = Some user \<and>
      row \<in> set (user_repositories (committed (fst rename_run)) (u_id user)) \<and>
      r_github_id row = 1 \<and> r_name row = Some ''omega'' \<and>
      r_html_url row = Some ''https://github.com/example/omega'' \<and>
      r_description row = None \<and> r_language row = Some ''Python''"
    by (simp add: example_repo_def)
  from overwrite_attributes [OF reachable.init run2 l2] n
  have b: "snd nameless_run = Inl SQLAlchemyError \<and>
      committed (fst nameless_run) = committed init_session"
    by simp
  from a b run l run2 l2 n reachable_alice_synced reachable.init show ?thesis
    by blast
qed

section \<open>C6: records without an identifier are skipped\<close>

lemma loop_skips_no_id:
  "foldl (upsert_repo v uid) st (filter (\<lambda>repo. d_id repo \<noteq> None) repos_data) =
     foldl (upsert_repo v uid) st repos_data"
  by (induction repos_data arbitrary: st) auto

text \<open>
  C6. A record without an external identifier is skipped and cannot fail the call: for
  every session, username and list, the call does exactly what it does on the list
  without those records (the same store, the same response or the same error).
\<close>

theorem records_without_id_skipped:
  "upsert_user_and_repos e db username repos_data =
     upsert_user_and_repos e db username (filter (\<lambda>repo. d_id repo \<noteq> None) repos_data)"
  unfolding upsert_user_and_repos_def loop_skips_no_id by (rule refl)

theorem records_without_id_skipped_witness:
  "d_id no_id_repo = None \<and>
   malformed_run =
     upsert_user_and_repos example_env (SessionLocal init_session) ''alice''
       [example_repo 1 ''zeta'', example_repo 2 ''alpha''] \<and>
   snd malformed_run =
     Inr \<lparr>sr_username = ''alice'', sr_status = ''new'', sr_is_new = True,
          sr_repositories = [example_base ''alpha'', example_base ''zeta'']\<rparr> \<and>
   repositories (committed (SessionLocal init_session)) = [] \<and>
   length (repositories (committed (fst malformed_run))) = 2"
proof -
  have "filter (\<lambda>repo. d_id repo \<noteq> None)
      [no_id_repo, example_repo 1 ''zeta'', example_repo 2 ''alpha''] =
      [example_repo 1 ''zeta'', example_repo 2 ''alpha'']"
    by (simp add: no_id_repo_def example_repo_def)
  with records_without_id_skipped [of example_env "SessionLocal init_session" "''alice''"
      "[no_id_repo, example_repo 1 ''zeta'', example_repo 2 ''alpha'']"]
  have skipped: "malformed_run =
     upsert_user_and_repos example_env (SessionLocal init_session) ''alice''
       [example_repo 1 ''zeta'', example_repo 2 ''alpha'']"
    by (simp add: malformed_run_def)
  have no_id: "d_id no_id_repo = None" by (simp add: no_id_repo_def)
  have before: "repositories (committed (SessionLocal init_session)) = []"
    by (simp add: SessionLocal_def init_session_def)
  have result: "snd malformed_run =
     Inr \<lparr>sr_username = ''alice'', sr_status = ''new'', sr_is_new = True,
          sr_repositories = [example_base ''alpha'', example_base ''zeta'']\<rparr>"
    and after: "length (repositories (committed (fst malformed_run))) = 2"
    by (simp_all add: malformed_run_eq)
  from no_id skipped result before after show ?thesis by blast
qed

section \<open>C7: the response lists the user's repositories in order of name\<close>

lemma set_insort_by: "set (insort_by le x xs) = insert x (set xs)"
  by (induction xs) auto

lemma mset_insort_by: "mset (insort_by le x xs) = add_mset x (mset xs)"
  by (induction xs) auto

lemma mset_order_by: "mset (order_by le xs) = mset xs"
  by (induction xs) (simp_all add: order_by_def mset_insort_by)

lemma sorted_wrt_insort_by:
  assumes total: "\<And>a b. le a b \<or> le b a"
    and trans: "\<And>a b c. le a b \<Longrightarrow> le b c \<Longrightarrow> le a c"
  shows "sorted_wrt le xs \<Longrightarrow> sorted_wrt le (insort_by le x xs)"
proof (induction xs)
  case Nil
  then show ?case by simp
next
  case (Cons y ys)
  show ?case
  proof (cases "le x y")
    case True
    with Cons.prems trans have "\<forall>z \<in> set (y # ys). le x z" by auto
    with True Cons.prems show ?thesis by simp
  next
    case False
    with total have "le y x" by blast
    with Cons False show ?thesis by (auto simp: set_insort_by)
  qed
qed

lemma sorted_wrt_order_by:
  assumes "\<And>a b. le a b \<or> le b a" and "\<And>a b c. le a b \<Longrightarrow> le b c \<Longrightarrow> le a c"
  shows "sorted_wrt le (order_by le xs)"
  by (induction xs) (simp_all add: order_by_def sorted_wrt_insort_by [OF assms])

lemma name_le_total:
  assumes "\<And>x y. le x y \<or> le y x"
  shows "name_le le a b \<or> name_le le b a"
  using assms by (auto simp: name_le_def split: option.splits)

lemma name_le_trans:
  assumes "\<And>x y z. le x y \<Longrightarrow> le y z \<Longrightarrow> le x z"
  shows "name_le le a b \<Longrightarrow> name_le le b c \<Longrightarrow> name_le le a c"
  using assms by (auto simp: name_le_def split: option.splits)

lemma those_map_Some:
  "those (map f xs) = Some ys \<Longrightarrow> map f xs = map Some ys"
proof (induction xs arbitrary: ys)
  case Nil
  then show ?case by simp
next
  case (Cons x xs)
  then show ?case by (auto split: option.splits)
qed

lemma from_orm_name: "from_orm e row = Some b \<Longrightarrow> r_name row = Some (rb_name b)"
  by (auto simp: from_orm_def split: option.splits)

lemma sorted_names:
  "sorted_wrt (name_le le) rows \<Longrightarrow> map r_name rows = map Some names \<Longrightarrow> sorted_wrt le names"
proof (induction rows arbitrary: names)
  case Nil
  then show ?case by simp
next
  case (Cons row rows)
  from Cons.prems(2) obtain n ns where names: "names = n # ns" "r_name row = Some n"
    "map r_name rows = map Some ns" by (cases names) auto
  from Cons.prems(1) have s: "sorted_wrt (name_le le) rows" and
    first: "\<forall>r \<in> set rows. name_le le row r" by simp_all
  have "le n m" if "m \<in> set ns" for m
  proof -
    from that have "Some m \<in> set (map r_name rows)" unfolding names(3) by simp
    then obtain r where "r \<in> set rows" "r_name r = Some m" by auto
    with first names(2) show ?thesis by (auto simp: name_le_def)
  qed
  with Cons.IH [OF s names(3)] names(1) show ?case by simp
qed

lemma folding_total: "collate_le folding_env a b \<or> collate_le folding_env b a"
  by (auto simp: folding_env_def)

lemma folding_trans:
  "collate_le folding_env a b \<Longrightarrow> collate_le folding_env b c \<Longrightarrow> collate_le folding_env a c"
  by (auto simp: folding_env_def)

text \<open>
  C7 as the specification states it fails. The code asks the database for
  \<^verbatim>\<open>ORDER BY name ASC\<close>, and the database orders text by its collation, which the code
  does not choose. Under a collation that disregards case, the repositories Beta and
  alpha come back as alpha, Beta; in the case-sensitive lexical order Beta comes first,
  every capital letter being below every small one.
\<close>

theorem collation_counterexample:
  "snd (upsert_user_and_repos folding_env (SessionLocal init_session) ''alice''
          [example_repo 1 ''Beta'', example_repo 2 ''alpha'']) =
     Inr \<lparr>sr_username = ''alice'', sr_status = ''new'', sr_is_new = True,
          sr_repositories = [example_base ''alpha'', example_base ''Beta'']\<rparr> \<and>
   map rb_name [example_base ''alpha'', example_base ''Beta''] = [''alpha'', ''Beta''] \<and>
   \<not> sorted [''alpha'', ''Beta''] \<and> sorted [''Beta'', ''alpha'']"
proof -
  have "snd (upsert_user_and_repos folding_env (SessionLocal init_session) ''alice''
          [example_repo 1 ''Beta'', example_repo 2 ''alpha'']) =
     Inr \<lparr>sr_username = ''alice'', sr_status = ''new'', sr_is_new = True,
          sr_repositories = [example_base ''alpha'', example_base ''Beta'']\<rparr>"
    using folded_run_result by (simp add: folded_run_def)
  moreover have "map rb_name [example_base ''alpha'', example_base ''Beta''] = [''alpha'', ''Beta'']"
    by (simp add: example_base_def)
  moreover have "\<not> sorted [''alpha'', ''Beta'']" "sorted [''Beta'', ''alpha'']"
    by simp_all
  ultimately show ?thesis by blast
qed

text \<open>
  C7, amended. When the call returns, the names of the returned repositories are in
  ascending order of the database's collation (a collation compares any two names and
  is transitive); this is the case-sensitive lexical order when the collation is the
  byte order of the text. The returned list is made, row by row, from a rearrangement
  of all the rows the committed database holds for the user.
\<close>

theorem response_ordered_by_collation:
  assumes "upsert_user_and_repos e db username repos_data = (db', Inr resp)"
    and "\<forall>a b. collate_le e a b \<or> collate_le e b a"
    and "\<forall>a b c. collate_le e a b \<longrightarrow> collate_le e b c \<longrightarrow> collate_le e a c"
  shows "sorted_wrt (collate_le e) (map rb_name (sr_repositories resp)) \<and>
         (collate_le e = (\<le>) \<longrightarrow> sorted (map rb_name (sr_repositories resp))) \<and>
         (\<exists>user rows. find_user (committed db') username = Some user \<and>
            mset rows = mset (user_repositories (committed db') (u_id user)) \<and>
            map (from_orm e) rows = map Some (sr_repositories resp))"
proof -
  have ok: "Inr resp \<noteq> (Inl SQLAlchemyError :: exn + user_sync_response)" by simp
  from upsert_commit_facts [OF assms(1) ok] obtain db1 user is_new where
    g: "get_or_create_user e db username = (db1, Inr (user, is_new))"
    and b: "build_response e (u_id user) is_new (db'\<lparr>txn := None\<rparr>) = (db', Inr resp)"
    by blast
  from upsert_user_row [OF assms(1) ok g] obtain user' where
    u: "find_user (committed db') username = Some user'" "u_id user' = u_id user"
    by blast
  let ?le = "collate_le e"
  let ?rows = "order_by (name_le ?le) (user_repositories (committed db') (u_id user))"
  from build_response_Inr [OF b]
  have "those (map (from_orm e) ?rows) = Some (sr_repositories resp)" by simp
  then have m: "map (from_orm e) ?rows = map Some (sr_repositories resp)"
    by (rule those_map_Some)
  have "map r_name ?rows = map Some (map rb_name (sr_repositories resp))"
  proof -
    have "length ?rows = length (sr_repositories resp)"
      using m by (rule map_eq_imp_length_eq)
    moreover have "r_name (?rows ! i) = Some (rb_name (sr_repositories resp ! i))"
      if "i < length ?rows" for i
    proof -
      from that m have "from_orm e (?rows ! i) = Some (sr_repositories resp ! i)"
        by (metis \<open>length ?rows = length (sr_repositories resp)\<close> nth_map)
      then show ?thesis by (rule from_orm_name)
    qed
    ultimately show ?thesis by (simp add: list_eq_iff_nth_eq)
  qed
  moreover have "sorted_wrt (name_le ?le) ?rows"
  proof (rule sorted_wrt_order_by)
    fix a b show "name_le ?le a b \<or> name_le ?le b a"
      by (rule name_le_total) (use assms(2) in blast)
  next
    fix a b c assume "name_le ?le a b" "name_le ?le b c"
    then show "name_le ?le a c"
      by (rule name_le_trans [rotated]) (use assms(3) in blast)
  qed
  ultimately have s: "sorted_wrt ?le (map rb_name (sr_repositories resp))"
    by (rule sorted_names [rotated])
  then have "?le = (\<le>) \<longrightarrow> sorted (map rb_name (sr_repositories resp))" by auto
  moreover have "mset ?rows = mset (user_repositories (committed db') (u_id user'))"
    by (simp add: mset_order_by u(2))
  ultimately show ?thesis using s u(1) m by blast
qed

theorem response_ordered_by_collation_witness:
  "upsert_user_and_repos example_env (SessionLocal init_session) ''alice''
     [example_repo 1 ''zeta'', example_repo 2 ''alpha'', example_repo 3 ''mid''] =
     (fst first_run, Inr alice_response) \<and>
   collate_le example_env = (\<le>) \<and>
   map rb_name (sr_repositories alice_response) = [''alpha'', ''mid'', ''zeta''] \<and>
   sorted_wrt (collate_le example_env) (map rb_name (sr_repositories alice_response)) \<and>
   sorted (map rb_name (sr_repositories alice_response)) \<and>
   (\<exists>user rows. find_user (committed (fst first_run)) ''alice'' = Some user \<and>
      mset rows = mset (user_repositories (committed (fst first_run)) (u_id user)) \<and>
      map (from_orm example_env) rows = map Some (sr_repositories alice_response)) \<and>
   sorted_wrt (collate_le folding_env) [''alpha'', ''Beta'']"
proof -
  have c: "collate_le example_env = (\<le>)" by (simp add: example_env_def)
  have total: "\<forall>a b. collate_le example_env a b \<or> collate_le example_env b a"
    unfolding c by auto
  have trans: "\<forall>a b c. collate_le example_env a b \<longrightarrow> collate_le example_env b c \<longrightarrow>
      collate_le example_env a c"
    unfolding c by auto
  have n: "map rb_name (sr_repositories alice_response) = [''alpha'', ''mid'', ''zeta'']"
    by (simp add: alice_response_def example_base_def)
  have run: "upsert_user_and_repos folding_env (SessionLocal init_session) ''alice''
       [example_repo 1 ''Beta'', example_repo 2 ''alpha''] =
     (fst folded_run,
      Inr \<lparr>sr_username = ''alice'', sr_status = ''new'', sr_is_new = True,
           sr_repositories = [example_base ''alpha'', example_base ''Beta'']\<rparr>)"
    unfolding folded_run_def [symmetric] folded_run_result [symmetric] by simp
  have ftotal: "\<forall>a b. collate_le folding_env a b \<or> collate_le folding_env b a"
    using folding_total by blast
  have ftrans: "\<forall>a b c. collate_le folding_env a b \<longrightarrow> collate_le folding_env b c \<longrightarrow>
      collate_le folding_env a c"
    using folding_trans by blast
  from response_ordered_by_collation [OF run ftotal ftrans]
  have f: "sorted_wrt (collate_le folding_env) [''alpha'', ''Beta'']"
    by (simp add: example_base_def)
  from response_ordered_by_collation [OF first_run_eq total trans] first_run_eq c n f
  show ?thesis
    unfolding alice_repos_def by blast
qed

section \<open>C8: rows of other users are not touched\<close>

lemma filter_map_fixed:
  "(\<And>x. x \<in> set xs \<Longrightarrow> P x \<Longrightarrow> f x = x) \<Longrightarrow> (\<And>x. P (f x) = P x) \<Longrightarrow>
     filter P (map f xs) = filter P xs"
  by (induction xs) auto

lemma news_user_id:
  assumes "map repo_key news = map new_key (new_objects v uid repos_data)"
    and "r \<in> set news"
  shows "r_user_id r = uid"
proof -
  from map_eq_elem [OF assms(1) assms(1) assms(2)] obtain n where
    "n \<in> set (new_objects v uid repos_data)" "repo_key r = new_key n" by blast
  with new_objects_keys [of n v uid repos_data] show ?thesis
    by (simp add: repo_key_def new_key_def)
qed

lemma other_user_id:
  assumes g: "get_or_create_user e db username = (db1, Inr (user, is_new))"
    and c: "constraints_ok (view db)"
    and o: "other \<in> set (users (view db1))" "u_username other \<noteq> username"
  shows "u_id other \<noteq> u_id user"
proof
  assume "u_id other = u_id user"
  with get_or_create_user_constraints(1) [OF g c] o(1) get_or_create_user_member(1) [OF g]
  have "other = user" by (auto dest: distinct_map_eq)
  with get_or_create_user_member(5) [OF g] o(2) show False by simp
qed

lemma upsert_other_users:
  assumes run: "upsert_user_and_repos e db username repos_data = (db', res)"
    and ok: "res \<noteq> Inl SQLAlchemyError"
    and c: "constraints_ok (view db)"
  shows "filter (\<lambda>u. u_username u \<noteq> username) (users (committed db')) =
           filter (\<lambda>u. u_username u \<noteq> username) (users (view db))"
proof -
  from upsert_repositories [OF run ok] obtain db1 user is_new where
    g: "get_or_create_user e db username = (db1, Inr (user, is_new))"
    and u: "users (committed db') =
       users (flush_user (utcnow_sync e) (utcnow_commit e) (u_id user) (view db1))"
    by blast
  let ?P = "\<lambda>u. u_username u \<noteq> username"
  let ?f = "\<lambda>u. if u_id u = u_id user \<and> u_last_synced_at u \<noteq> Some (utcnow_sync e)
                 then u\<lparr>u_last_synced_at := Some (utcnow_sync e), u_updated_at := utcnow_commit e\<rparr>
                 else u"
  have "filter ?P (map ?f (users (view db1))) = filter ?P (users (view db1))"
  proof (rule filter_map_fixed)
    fix x assume "x \<in> set (users (view db1))" "u_username x \<noteq> username"
    with other_user_id [OF g c] show "?f x = x" by simp
  next
    fix x show "?P (?f x) = ?P x" by simp
  qed
  moreover have "filter ?P (users (view db1)) = filter ?P (users (view db))"
    using get_or_create_user_users [OF g] get_or_create_user_member(5) [OF g] by simp
  ultimately show ?thesis unfolding u by (simp add: flush_user_def)
qed

lemma upsert_other_repositories:
  assumes run: "upsert_user_and_repos e db username repos_data = (db', res)"
    and ok: "res \<noteq> Inl SQLAlchemyError"
    and c: "constraints_ok (view db)"
    and o: "other \<in> set (users (view db))" "u_username other \<noteq> username"
  shows "user_repositories (committed db') (u_id other) = user_repositories (view db) (u_id other)"
proof -
  from upsert_repositories [OF run ok] obtain db1 user is_new news where
    g: "get_or_create_user e db username = (db1, Inr (user, is_new))"
    and rows: "repositories (committed db') =
       map (update_row (utcnow_commit e) (loaded (view db1) (u_id user) repos_data))
         (kept_rows (view db1) (u_id user) repos_data) @ news"
    and nk: "map repo_key news = map new_key (new_objects (view db1) (u_id user) repos_data)"
    by blast
  let ?v = "view db1" and ?uid = "u_id user" and ?oid = "u_id other"
  let ?m = "loaded ?v ?uid repos_data" and ?kept = "kept_rows ?v ?uid repos_data"
  let ?P = "\<lambda>r. r_user_id r = ?oid"
  from o(1) get_or_create_user_users [OF g] have "other \<in> set (users ?v)" by simp
  from other_user_id [OF g c this o(2)] have ne: "?oid \<noteq> ?uid" .
  note rv = get_or_create_user_member(3) [OF g]
  from c rv have d: "distinct (map r_id (repositories ?v))"
    by (simp add: constraints_ok_def)
  have "filter ?P news = []"
    using news_user_id [OF nk] ne by (auto simp: filter_empty_conv)
  moreover have "filter ?P (map (update_row (utcnow_commit e) ?m) ?kept) = filter ?P ?kept"
  proof (rule filter_map_fixed)
    fix x assume x: "x \<in> set ?kept" "r_user_id x = ?oid"
    from x(1) have "x \<in> set (repositories ?v)" using kept_rows_subset by blast
    from loaded_other_user [OF d this] x(2) ne have "?m (r_id x) = None" by simp
    then show "update_row (utcnow_commit e) ?m x = x" by (rule update_row_untouched)
  next
    fix x show "?P (update_row (utcnow_commit e) ?m x) = ?P x" by simp
  qed
  moreover have "filter ?P ?kept = filter ?P (repositories ?v)"
    unfolding kept_rows_def using ne by (auto intro: filter_cong)
  ultimately show ?thesis
    by (simp add: user_repositories_def rows rv)
qed

text \<open>
  C8. In every state the service reaches, syncing one username leaves the rows of every
  other user as they are: the user rows with another username are the same rows, in
  the same order, and the repository rows owned by any user with another username are
  the same rows. None is created, changed or deleted, whether the call returns or
  raises.
\<close>

theorem other_users_untouched:
  assumes "reachable srv"
    and "upsert_user_and_repos e (SessionLocal srv) username repos_data = (db', res)"
  shows "filter (\<lambda>u. u_username u \<noteq> username) (users (committed db')) =
           filter (\<lambda>u. u_username u \<noteq> username) (users (committed srv)) \<and>
         (\<forall>other \<in> set (users (committed srv)). u_username other \<noteq> username \<longrightarrow>
            user_repositories (committed db') (u_id other) =
              user_repositories (committed srv) (u_id other))"
proof (cases "res = Inl SQLAlchemyError")
  case True
  with assms(2) have "committed db' = committed (SessionLocal srv)"
    by (auto dest: upsert_store_error)
  then show ?thesis by (simp add: SessionLocal_def)
next
  case False
  from reachable_invariant [OF assms(1)]
  have c: "constraints_ok (view (SessionLocal srv))"
    and v: "view (SessionLocal srv) = committed srv"
    by (simp_all add: SessionLocal_def)
  from upsert_other_users [OF assms(2) False c] upsert_other_repositories [OF assms(2) False c]
  show ?thesis unfolding v by blast
qed

theorem other_users_untouched_witness:
  "reachable two_users \<and>
   upsert_user_and_repos third_env (SessionLocal two_users) ''alice''
       [example_repo 1 ''omega'', example_repo 2 ''alpha''] = (fst alice_again, snd alice_again) \<and>
   repositories (committed (fst alice_again)) \<noteq> repositories (committed two_users) \<and>
   filter (\<lambda>u. u_username u \<noteq> ''alice'') (users (committed two_users)) =
     [\<lparr>u_id = 1, u_username = ''ghost'', u_created_at = 10, u_updated_at = 12,
       u_last_synced_at = Some 11\<rparr>] \<and>
   filter (\<lambda>u. u_username u \<noteq> ''alice'') (users (committed (fst alice_again))) =
     filter (\<lambda>u. u_username u \<noteq> ''alice'') (users (committed two_users)) \<and>
   user_repositories (committed two_users) 1 \<noteq> [] \<and>
   user_repositories (committed (fst alice_again)) 1 = user_repositories (committed two_users) 1"
proof -
  have run: "upsert_user_and_repos third_env (SessionLocal two_users) ''alice''
       [example_repo 1 ''omega'', example_repo 2 ''alpha''] = (fst alice_again, snd alice_again)"
    by (simp add: alice_again_def)
  have changed: "repositories (committed (fst alice_again)) \<noteq> repositories (committed two_users)"
    by (simp add: alice_again_eq two_users_eq)
  have ghost: "filter (\<lambda>u. u_username u \<noteq> ''alice'') (users (committed two_users)) =
     [\<lparr>u_id = 1, u_username = ''ghost'', u_created_at = 10, u_updated_at = 12,
       u_last_synced_at = Some 11\<rparr>]"
    and owns: "user_repositories (committed two_users) 1 \<noteq> []"
    by (simp_all add: two_users_eq user_repositories_def)
  have mem: "\<lparr>u_id = 1, u_username = ''ghost'', u_created_at = 10, u_updated_at = 12,
       u_last_synced_at = Some 11\<rparr> \<in> set (users (committed two_users))"
    by (simp add: two_users_eq)
  from other_users_untouched [OF reachable_two_users run] mem
  have "filter (\<lambda>u. u_username u \<noteq> ''alice'') (users (committed (fst alice_again))) =
     filter (\<lambda>u. u_username u \<noteq> ''alice'') (users (committed two_users)) \<and>
     user_repositories (committed (fst alice_again)) 1 = user_repositories (committed two_users) 1"
    by fastforce
  with reachable_two_users run changed ghost owns show ?thesis by blast
qed

section \<open>C9: the refresh job goes on after a failed fetch\<close>

lemma refresh_loop_append:
  assumes "refresh_loop e client_get srv xs = (srv1, out1, None)"
  shows "refresh_loop e client_get srv (xs @ ys) =
     (case refresh_loop e client_get srv1 ys of (srv2, out2, r) \<Rightarrow> (srv2, out1 @ out2, r))"
  using assms
proof (induction xs arbitrary: srv out1)
  case Nil
  then show ?case by (simp split: prod.splits)
next
  case (Cons x xs)
  obtain db1 res where u: "refresh_user (e x) client_get (SessionLocal srv) x = (db1, res)"
    by (cases "refresh_user (e x) client_get (SessionLocal srv) x")
  show ?case
  proof (cases res)
    case (Inl err)
    with u Cons.prems show ?thesis by simp
  next
    case (Inr out)
    obtain s o' r where l: "refresh_loop e client_get (close db1) xs = (s, o', r)"
      by (cases "refresh_loop e client_get (close db1) xs") auto
    with u Inr Cons.prems have "s = srv1" "out1 = out @ o'" "r = None" by simp_all
    with l have "refresh_loop e client_get (close db1) xs = (srv1, o', None)" by simp
    from Cons.IH [OF this] u Inr \<open>out1 = out @ o'\<close> show ?thesis
      by (simp split: prod.splits)
  qed
qed

lemma refresh_user_http_failure:
  assumes "client_get (github_api_url username) = Inr response"
    and "status_code response \<noteq> 200 \<or> body response = Some JOther"
  shows "refresh_user e client_get db username =
     (db, Inr [''Error updating user '' @ username @ '': '' @
                (if status_code response = 404 then ''GitHub user not found.''
                 else if status_code response \<noteq> 200
                 then ''Error querying GitHub: '' @ string_of_nat (status_code response)
                 else ''Unexpected response from GitHub API.'')])"
  using assms by (auto simp: refresh_user_def fetch_github_repos_def)

lemma refresh_user_reconciles:
  assumes "fetch_github_repos client_get username = Inr repos_data"
  shows "refresh_user e client_get db username =
     (case upsert_user_and_repos e db username repos_data of
        (db1, Inl err) \<Rightarrow> (db1, Inl err)
      | (db1, Inr resp) \<Rightarrow> (db1, Inr []))"
proof -
  obtain db1 res where u: "upsert_user_and_repos e db username repos_data = (db1, res)"
    by (cases "upsert_user_and_repos e db username repos_data")
  show ?thesis
  proof (cases res)
    case (Inl err)
    with u upsert_store_error [of e db username repos_data db1 err]
    have "err = ValidationError \<or> err = SQLAlchemyError" by auto
    with u Inl assms show ?thesis by (auto simp: refresh_user_def)
  next
    case (Inr resp)
    with u assms show ?thesis by (simp add: refresh_user_def)
  qed
qed

lemma snapshot_new_session:
  "view (autobegin (SessionLocal srv)) = committed srv"
  "close (autobegin (SessionLocal srv)) = SessionLocal srv"
  by (simp_all add: view_autobegin SessionLocal_def close_def autobegin_def)

lemma two_users_snapshot:
  "map u_username (query_all_users u_id (committed two_users)) = [''ghost'', ''alice'']"
  by (simp add: two_users_eq query_all_users_def order_by_def)

lemma alice_again_refreshed:
  "refresh_loop (\<lambda>_. third_env) client_get (SessionLocal two_users) [] =
     (SessionLocal two_users, [], None)"
  "refresh_loop (\<lambda>_. third_env) example_client (SessionLocal two_users) [''alice''] =
     (close (fst alice_again), [], None)"
  unfolding alice_refreshed by (simp_all add: alice_again_eq close_def)

text \<open>
  C9. Let the job read its snapshot of usernames, and let the upstream answer one of
  them with a failure that the fetch turns into an \<^verbatim>\<open>HTTPException\<close>: the status 404
  (the user is not found), another status than 200, or a 200 whose JSON is not a list
  (upstream errors). When the usernames before it were dealt with without an exception
  that ends the job, leaving the store \<open>srv1\<close> and the lines \<open>out1\<close>, the job as a whole
  is: those lines, the line printed for the failed username, and then the loop over
  all the usernames after it, on the store \<open>srv1\<close> as it was. The failure changes nothing
  in the store and ends nothing. And that loop reconciles every later username whose
  fetch gives a list: when the usernames between have been dealt with, leaving the store
  \<open>srv3\<close>, it calls \<^verbatim>\<open>upsert_user_and_repos\<close> for it in a new session on that store, and goes
  on with the rest when the call returns.
\<close>

theorem refresh_continues_after_http_failure:
  assumes "map u_username (query_all_users heap_position (committed srv)) =
             before @ username # after"
    and "client_get (github_api_url username) = Inr response"
    and "status_code response \<noteq> 200 \<or> body response = Some JOther"
    and "refresh_loop e client_get (SessionLocal srv) before = (srv1, out1, None)"
  shows "refresh_all_users heap_position e client_get srv =
           (case refresh_loop e client_get (SessionLocal srv1) after of
              (srv2, out2, r) \<Rightarrow>
                (srv2,
                 out1 @
                 (''Error updating user '' @ username @ '': '' @
                    (if status_code response = 404 then ''GitHub user not found.''
                     else if status_code response \<noteq> 200
                     then ''Error querying GitHub: '' @ string_of_nat (status_code response)
                     else ''Unexpected response from GitHub API.''))
                 # out2,
                 r)) \<and>
         (\<forall>between following rest repos_data srv3 out3.
            after = between @ following # rest \<longrightarrow>
            refresh_loop e client_get (SessionLocal srv1) between = (srv3, out3, None) \<longrightarrow>
            fetch_github_repos client_get following = Inr repos_data \<longrightarrow>
            refresh_loop e client_get (SessionLocal srv1) after =
              (case upsert_user_and_repos (e following) (SessionLocal srv3) following repos_data of
                 (db1, Inl err) \<Rightarrow> (close db1, out3, Some err)
               | (db1, Inr resp) \<Rightarrow>
                   (case refresh_loop e client_get (close db1) rest of
                      (srv2, out2, r) \<Rightarrow> (srv2, out3 @ out2, r))))"
proof -
  let ?line = "''Error updating user '' @ username @ '': '' @
     (if status_code response = 404 then ''GitHub user not found.''
      else if status_code response \<noteq> 200
      then ''Error querying GitHub: '' @ string_of_nat (status_code response)
      else ''Unexpected response from GitHub API.'')"
  have s: "SessionLocal (SessionLocal x) = SessionLocal x" "close (SessionLocal x) = SessionLocal x"
    for x by (simp_all add: SessionLocal_def close_def)
  have "refresh_all_users heap_position e client_get srv =
      refresh_loop e client_get (SessionLocal srv) (before @ username # after)"
    by (simp add: refresh_all_users_def Let_def snapshot_new_session assms(1))
  also have "\<dots> = (case refresh_loop e client_get srv1 (username # after) of
      (srv2, out2, r) \<Rightarrow> (srv2, out1 @ out2, r))"
    by (rule refresh_loop_append [OF assms(4)])
  also have "refresh_loop e client_get srv1 (username # after) =
      (case refresh_loop e client_get (SessionLocal srv1) after of
         (srv2, out2, r) \<Rightarrow> (srv2, ?line # out2, r))"
    by (simp add: refresh_user_http_failure [of client_get username response, OF assms(2,3)] s
        split: prod.splits)
  finally have job: "refresh_all_users heap_position e client_get srv =
      (case refresh_loop e client_get (SessionLocal srv1) after of
         (srv2, out2, r) \<Rightarrow> (srv2, out1 @ ?line # out2, r))"
    by (simp split: prod.splits)
  have "refresh_loop e client_get (SessionLocal srv1) (between @ following # rest) =
      (case upsert_user_and_repos (e following) (SessionLocal srv3) following repos_data of
         (db1, Inl err) \<Rightarrow> (close db1, out3, Some err)
       | (db1, Inr resp) \<Rightarrow>
           (case refresh_loop e client_get (close db1) rest of
              (srv2, out2, r) \<Rightarrow> (srv2, out3 @ out2, r)))"
    if b: "refresh_loop e client_get (SessionLocal srv1) between = (srv3, out3, None)"
      and f: "fetch_github_repos client_get following = Inr repos_data"
    for between following rest repos_data srv3 out3
    unfolding refresh_loop_append [OF b]
    by (simp add: refresh_user_reconciles [OF f] split: prod.splits sum.splits)
  with job show ?thesis by blast
qed

theorem refresh_continues_after_http_failure_witness:
  "map u_username (query_all_users u_id (committed two_users)) = [] @ ''ghost'' # [''alice''] \<and>
   example_client (github_api_url ''ghost'') = Inr \<lparr>status_code = 404, body = None\<rparr> \<and>
   confused_client (github_api_url ''ghost'') = Inr \<lparr>status_code = 200, body = Some JOther\<rparr> \<and>
   fetch_github_repos example_client ''alice'' =
     Inr [example_repo 1 ''omega'', example_repo 2 ''alpha''] \<and>
   refresh_all_users u_id (\<lambda>_. third_env) example_client two_users =
     (close (fst alice_again), [''Error updating user ghost: GitHub user not found.''], None) \<and>
   refresh_all_users u_id (\<lambda>_. third_env) confused_client two_users =
     (close (fst alice_again),
      [''Error updating user ghost: Unexpected response from GitHub API.''], None) \<and>
   close (fst alice_again) =
     close (fst (upsert_user_and_repos third_env (SessionLocal two_users) ''alice''
       [example_repo 1 ''omega'', example_repo 2 ''alpha''])) \<and>
   map r_name (user_repositories (committed two_users) 2) =
     [Some ''zeta'', Some ''alpha'', Some ''mid''] \<and>
   map r_name (user_repositories (committed (close (fst alice_again))) 2) =
     [Some ''omega'', Some ''alpha'']"
proof -
  let ?e = "\<lambda>_ :: string. third_env"
  have snap: "map u_username (query_all_users u_id (committed two_users)) =
      [] @ ''ghost'' # [''alice'']"
    by (simp add: two_users_snapshot)
  have c1: "example_client (github_api_url ''ghost'') = Inr \<lparr>status_code = 404, body = None\<rparr>"
    by (simp add: example_client_def)
  have c2: "confused_client (github_api_url ''ghost'') =
      Inr \<lparr>status_code = 200, body = Some JOther\<rparr>"
    by (simp add: confused_client_def)
  have f1: "status_code \<lparr>status_code = 404, body = None\<rparr> \<noteq> 200 \<or>
      body \<lparr>status_code = 404, body = None\<rparr> = Some JOther" by simp
  have f2: "status_code \<lparr>status_code = 200, body = Some JOther\<rparr> \<noteq> 200 \<or>
      body \<lparr>status_code = 200, body = Some JOther\<rparr> = Some JOther" by simp
  have same: "refresh_loop ?e confused_client (SessionLocal two_users) [''alice''] =
      refresh_loop ?e example_client (SessionLocal two_users) [''alice'']"
    by (simp add: refresh_user_def fetch_github_repos_def confused_client_def
        github_api_url_def)
  have fetched: "fetch_github_repos example_client ''alice'' =
      Inr [example_repo 1 ''omega'', example_repo 2 ''alpha'']"
    by (simp add: fetch_github_repos_def example_client_def github_api_url_def)
  have s: "SessionLocal (SessionLocal two_users) = SessionLocal two_users"
    by (simp add: SessionLocal_def)
  from refresh_continues_after_http_failure
    [where client_get = example_client and e = ?e and heap_position = u_id,
     OF snap c1 f1 alice_again_refreshed(1), THEN conjunct1]
  have j1: "refresh_all_users u_id ?e example_client two_users =
     (close (fst alice_again), [''Error updating user ghost: GitHub user not found.''], None)"
    unfolding s alice_again_refreshed(2) by simp
  from refresh_continues_after_http_failure
    [where client_get = confused_client and e = ?e and heap_position = u_id,
     OF snap c2 f2 alice_again_refreshed(1), THEN conjunct1]
  have j2: "refresh_all_users u_id ?e confused_client two_users =
     (close (fst alice_again),
      [''Error updating user ghost: Unexpected response from GitHub API.''], None)"
    unfolding s same alice_again_refreshed(2) by simp
  have run: "close (fst alice_again) =
     close (fst (upsert_user_and_repos third_env (SessionLocal two_users) ''alice''
       [example_repo 1 ''omega'', example_repo 2 ''alpha'']))"
    by (simp add: alice_again_def)
  have rows: "map r_name (user_repositories (committed two_users) 2) =
      [Some ''zeta'', Some ''alpha'', Some ''mid'']"
    "map r_name (user_repositories (committed (close (fst alice_again))) 2) =
      [Some ''omega'', Some ''alpha'']"
    by (simp_all add: two_users_eq alice_again_eq user_repositories_def close_def)
  from snap c1 c2 fetched j1 j2 run rows show ?thesis by blast
qed

section \<open>C10: is_new and status\<close>

text \<open>
  C10. In the response of a call that returns, \<open>is_new\<close> is true exactly when \<open>status\<close>
  is "new", and that is so exactly when the store held no user of that name before
  the call (the call runs on a new session, which reads the committed database).
\<close>

theorem is_new_matches_status:
  assumes "txn db = None"
    and "upsert_user_and_repos e db username repos_data = (db', Inr resp)"
  shows "(sr_is_new resp \<longleftrightarrow> sr_status resp = ''new'') \<and>
         (sr_status resp = ''new'' \<longleftrightarrow> find_user (committed db) username = None)"
proof -
  have ok: "Inr resp \<noteq> (Inl SQLAlchemyError :: exn + user_sync_response)" by simp
  from upsert_commit_facts [OF assms(2) ok] obtain db1 user is_new where
    g: "get_or_create_user e db username = (db1, Inr (user, is_new))"
    and b: "build_response e (u_id user) is_new (db'\<lparr>txn := None\<rparr>) = (db', Inr resp)"
    by blast
  from build_response_Inr [OF b] have "sr_is_new resp = is_new"
    "sr_status resp = (if is_new then ''new'' else ''updated'')" by simp_all
  moreover from get_or_create_user_member(4) [OF g] assms(1)
  have "is_new \<longleftrightarrow> find_user (committed db) username = None"
    by (simp add: view_def)
  ultimately show ?thesis by auto
qed

theorem is_new_matches_status_witness:
  "txn (SessionLocal init_session) = None \<and>
   upsert_user_and_repos example_env (SessionLocal init_session) ''alice'' alice_repos =
     (fst first_run, Inr alice_response) \<and>
   sr_is_new alice_response \<and> sr_status alice_response = ''new'' \<and>
   find_user (committed (SessionLocal init_session)) ''alice'' = None"
proof -
  have t: "txn (SessionLocal init_session) = None" by (simp add: SessionLocal_def)
  from is_new_matches_status [OF t first_run_eq] t first_run_eq show ?thesis
    by (simp add: alice_response_def)
qed

end
